theory Spec2Isabelle
  imports Main "HOL-Library.AList"
begin

section \<open>Values, strings and exceptions\<close>

text \<open>
  The run metadata, the step parameters and the portal's records are JSON documents that
  \<^verbatim>\<open>json.load\<close> turns into Python values. A dict is an association list in insertion
  order. Numbers are never inspected by the code modelled here.
\<close>

datatype json =
    JNull
  | JBool bool
  | JNum int
  | JStr string
  | JList "json list"
  | JDict "(string \<times> json) list"

type_synonym dict = "(string \<times> json) list"

text \<open>
  Exceptions are values: the class and the message (\<^verbatim>\<open>str(e)\<close>), since
  \<^verbatim>\<open>accession_step\<close> decides on the message.
\<close>

datatype exc_class =
    Exception
  | TypeError
  | AttributeError
  | IndexError
  | KeyError
  | RecursionError
  | HTTPError
  | BackendError

datatype error = Raise exc_class string

fun str_of :: "error \<Rightarrow> string" where
  "str_of (Raise c m) = m"

text \<open>\<^verbatim>\<open>s.startswith(p)\<close> and the substring test \<^verbatim>\<open>p in s\<close>.\<close>

fun starts_with :: "string \<Rightarrow> string \<Rightarrow> bool" where
  "starts_with s [] = True"
| "starts_with [] (p # ps) = False"
| "starts_with (c # cs) (p # ps) = (c = p \<and> starts_with cs ps)"

fun str_in :: "string \<Rightarrow> string \<Rightarrow> bool" where
  "str_in p [] = (p = [])"
| "str_in p (c # cs) = (starts_with (c # cs) p \<or> str_in p cs)"

text \<open>\<^verbatim>\<open>s.split(c)\<close> for a separator of one character: always at least one piece.\<close>

fun split_on :: "char \<Rightarrow> string \<Rightarrow> string list" where
  "split_on c [] = [[]]"
| "split_on c (x # xs) =
     (if x = c then [] # split_on c xs
      else (case split_on c xs of
              [] \<Rightarrow> [[x]]
            | w # ws \<Rightarrow> (x # w) # ws))"

text \<open>
  \<^verbatim>\<open>list(set(xs))\<close> and iteration over \<^verbatim>\<open>set(xs)\<close>: each element once. Python leaves
  the order to the hash values; the model takes the order of first occurrence, and the
  properties below are stated through \<open>set\<close> and \<open>distinct\<close> only.
\<close>

definition py_set :: "'a list \<Rightarrow> 'a list" where
  "py_set xs = rev (remdups (rev xs))"

section \<open>The provenance graph: GSFile, Task, Analysis\<close>

text \<open>
  Tasks and files refer to each other, so both live in a store: a task is its index in
  \<^verbatim>\<open>Analysis.tasks\<close>, a file its index in \<^verbatim>\<open>Analysis.files\<close>. Both lists only grow
  at the end, so an index names the same object for the whole run, and Python's identity
  comparison of two tasks is equality of their indices.
\<close>

record gsfile =
  filename :: string
  filekeys :: "string list"
  task :: "nat option"
  used_by_tasks :: "nat list"
  md5sum :: string
  gs_size :: nat

record wdl_task =
  task_name :: string
  input_files :: "nat list"
  output_files :: "nat list"
  inputs :: dict
  outputs :: dict
  docker_image :: "string option"

record analysis =
  files :: "gsfile list"
  tasks :: "wdl_task list"

text \<open>One entry of a call's list in \<^verbatim>\<open>metadata['calls']\<close>.\<close>

record call =
  call_inputs :: dict
  call_outputs :: dict
  dockerImageUsed :: "string option"

type_synonym calls = "(string \<times> call list) list"

text \<open>The storage backend: a lookup can fail (a missing blob, a malformed path).\<close>

record gc_backend =
  be_md5sum :: "string \<Rightarrow> error + string"
  be_size :: "string \<Rightarrow> error + nat"
  be_download :: "string \<Rightarrow> error + string"

text \<open>\<^verbatim>\<open>GSFile.__init__\<close>\<close>

definition GSFile :: "string \<Rightarrow> string \<Rightarrow> string \<Rightarrow> nat \<Rightarrow> nat option \<Rightarrow> nat option \<Rightarrow> gsfile" where
  "GSFile key name md5 sz tsk used =
     \<lparr> filename = name, filekeys = [key], task = tsk,
       used_by_tasks = (case used of Some u \<Rightarrow> [u] | None \<Rightarrow> []),
       md5sum = md5, gs_size = sz \<rparr>"

text \<open>\<^verbatim>\<open>Analysis.extract_files\<close>: the strings containing \<^verbatim>\<open>gs://\<close>, in traversal order.\<close>

fun extract_files :: "json \<Rightarrow> string list" where
  "extract_files (JStr s) = (if str_in ''gs://'' s then [s] else [])"
| "extract_files (JList xs) = concat (map extract_files xs)"
| "extract_files (JDict kvs) = concat (map (\<lambda>kv. extract_files (snd kv)) kvs)"
| "extract_files JNull = []"
| "extract_files (JBool b) = []"
| "extract_files (JNum n) = []"

text \<open>
  The pairs (key, filename) that the two nested loops of \<^verbatim>\<open>get_or_make_files\<close> visit,
  in order.
\<close>

definition section_refs :: "dict \<Rightarrow> (string \<times> string) list" where
  "section_refs section =
     concat (map (\<lambda>kv. map (\<lambda>fn. (fst kv, fn)) (extract_files (snd kv))) section)"

text \<open>The loop of \<^verbatim>\<open>get_or_make_file\<close>: the first file with this name.\<close>

fun find_file :: "string \<Rightarrow> gsfile list \<Rightarrow> nat option" where
  "find_file fn [] = None"
| "find_file fn (f # fs) =
     (if fn = filename f then Some 0 else map_option Suc (find_file fn fs))"

text \<open>What \<^verbatim>\<open>get_or_make_file\<close> does to a file it finds.\<close>

definition touch :: "string \<Rightarrow> nat option \<Rightarrow> gsfile \<Rightarrow> gsfile" where
  "touch key used f =
     (let f1 = (if key \<notin> set (filekeys f) then f\<lparr>filekeys := filekeys f @ [key]\<rparr> else f)
      in case used of
           Some u \<Rightarrow> (if u \<notin> set (used_by_tasks f1)
                      then f1\<lparr>used_by_tasks := used_by_tasks f1 @ [u]\<rparr> else f1)
         | None \<Rightarrow> f1)"

definition get_or_make_file ::
  "gc_backend \<Rightarrow> string \<Rightarrow> string \<Rightarrow> nat option \<Rightarrow> nat option \<Rightarrow> gsfile list
     \<Rightarrow> error + (nat \<times> gsfile list)" where
  "get_or_make_file be key fn tsk used fs =
     (case find_file fn fs of
        Some i \<Rightarrow> Inr (i, fs[i := touch key used (fs ! i)])
      | None \<Rightarrow>
          (case be_md5sum be fn of
             Inl e \<Rightarrow> Inl e
           | Inr md5 \<Rightarrow>
               (case be_size be fn of
                  Inl e \<Rightarrow> Inl e
                | Inr sz \<Rightarrow> Inr (length fs, fs @ [GSFile key fn md5 sz tsk used]))))"

text \<open>\<^verbatim>\<open>get_or_make_files\<close>: the file indices in order, and the store after the loop.\<close>

fun get_or_make_refs ::
  "gc_backend \<Rightarrow> (string \<times> string) list \<Rightarrow> nat option \<Rightarrow> nat option \<Rightarrow> gsfile list
     \<Rightarrow> error + (nat list \<times> gsfile list)" where
  "get_or_make_refs be [] tsk used fs = Inr ([], fs)"
| "get_or_make_refs be (r # rs) tsk used fs =
     (case get_or_make_file be (fst r) (snd r) tsk used fs of
        Inl e \<Rightarrow> Inl e
      | Inr (i, fs1) \<Rightarrow>
          (case get_or_make_refs be rs tsk used fs1 of
             Inl e \<Rightarrow> Inl e
           | Inr (is, fs2) \<Rightarrow> Inr (i # is, fs2)))"

definition get_or_make_files ::
  "gc_backend \<Rightarrow> dict \<Rightarrow> nat option \<Rightarrow> nat option \<Rightarrow> gsfile list
     \<Rightarrow> error + (nat list \<times> gsfile list)" where
  "get_or_make_files be section tsk used fs =
     get_or_make_refs be (section_refs section) tsk used fs"

text \<open>
  \<^verbatim>\<open>make_task\<close>: the name is \<^verbatim>\<open>task_name.split('.')[1]\<close>, an IndexError when the key
  has no dot.
\<close>

definition make_task :: "string \<Rightarrow> call \<Rightarrow> error + wdl_task" where
  "make_task key c =
     (case split_on CHR ''.'' key of
        a # b # rest \<Rightarrow>
          Inr \<lparr> task_name = b, input_files = [], output_files = [],
                inputs = call_inputs c, outputs = call_outputs c,
                docker_image = dockerImageUsed c \<rparr>
      | _ \<Rightarrow> Inl (Raise IndexError ''list index out of range''))"

text \<open>The first loop of \<^verbatim>\<open>make_tasks\<close>, over the calls and the entries of each.\<close>

fun make_call_tasks :: "string \<Rightarrow> call list \<Rightarrow> error + wdl_task list" where
  "make_call_tasks key [] = Inr []"
| "make_call_tasks key (c # cs) =
     (case make_task key c of
        Inl e \<Rightarrow> Inl e
      | Inr t \<Rightarrow> (case make_call_tasks key cs of Inl e \<Rightarrow> Inl e | Inr ts \<Rightarrow> Inr (t # ts)))"

fun make_all_tasks :: "calls \<Rightarrow> error + wdl_task list" where
  "make_all_tasks [] = Inr []"
| "make_all_tasks (kv # kvs) =
     (case make_call_tasks (fst kv) (snd kv) of
        Inl e \<Rightarrow> Inl e
      | Inr ts \<Rightarrow> (case make_all_tasks kvs of Inl e \<Rightarrow> Inl e | Inr ts' \<Rightarrow> Inr (ts @ ts')))"

text \<open>
  The second loop: the output files of every task, the task at index \<open>i\<close> being the
  producer. The result is the list of \<^verbatim>\<open>output_files\<close>, one per task.
\<close>

fun make_outputs ::
  "gc_backend \<Rightarrow> nat \<Rightarrow> wdl_task list \<Rightarrow> gsfile list \<Rightarrow> error + (nat list list \<times> gsfile list)" where
  "make_outputs be i [] fs = Inr ([], fs)"
| "make_outputs be i (t # ts) fs =
     (case get_or_make_files be (outputs t) (Some i) None fs of
        Inl e \<Rightarrow> Inl e
      | Inr (out, fs1) \<Rightarrow>
          (case make_outputs be (Suc i) ts fs1 of
             Inl e \<Rightarrow> Inl e
           | Inr (outs, fs2) \<Rightarrow> Inr (out # outs, fs2)))"

text \<open>The third loop: the input files, the task at index \<open>i\<close> being a consumer.\<close>

fun make_inputs ::
  "gc_backend \<Rightarrow> nat \<Rightarrow> wdl_task list \<Rightarrow> gsfile list \<Rightarrow> error + (nat list list \<times> gsfile list)" where
  "make_inputs be i [] fs = Inr ([], fs)"
| "make_inputs be i (t # ts) fs =
     (case get_or_make_files be (inputs t) None (Some i) fs of
        Inl e \<Rightarrow> Inl e
      | Inr (inp, fs1) \<Rightarrow>
          (case make_inputs be (Suc i) ts fs1 of
             Inl e \<Rightarrow> Inl e
           | Inr (inps, fs2) \<Rightarrow> Inr (inp # inps, fs2)))"

definition set_files :: "wdl_task \<Rightarrow> nat list \<Rightarrow> nat list \<Rightarrow> wdl_task" where
  "set_files t out inp = t\<lparr>output_files := out, input_files := inp\<rparr>"

text \<open>\<^verbatim>\<open>Analysis.make_tasks\<close>, from \<^verbatim>\<open>self.files = []\<close>.\<close>

definition make_tasks :: "gc_backend \<Rightarrow> calls \<Rightarrow> error + analysis" where
  "make_tasks be cs =
     (case make_all_tasks cs of
        Inl e \<Rightarrow> Inl e
      | Inr ts \<Rightarrow>
          (case make_outputs be 0 ts [] of
             Inl e \<Rightarrow> Inl e
           | Inr (outs, fs1) \<Rightarrow>
               (case make_inputs be 0 ts fs1 of
                  Inl e \<Rightarrow> Inl e
                | Inr (inps, fs2) \<Rightarrow>
                    Inr \<lparr> files = fs2,
                          tasks = map (\<lambda>(t, out, inp). set_files t out inp)
                                    (zip ts (zip outs inps)) \<rparr>)))"

text \<open>The file locations a task's descriptor trees mention.\<close>

definition output_locations :: "wdl_task \<Rightarrow> string set" where
  "output_locations t = snd ` set (section_refs (outputs t))"

definition input_locations :: "wdl_task \<Rightarrow> string set" where
  "input_locations t = snd ` set (section_refs (inputs t))"

definition referenced_locations :: "wdl_task list \<Rightarrow> string set" where
  "referenced_locations ts = (\<Union>t \<in> set ts. output_locations t \<union> input_locations t)"

text \<open>
  How a file of the store changes while the graph is built: the name, the producer, the
  hash and the size stay, the role keys and the consumers only grow.
\<close>

definition same_file :: "gsfile \<Rightarrow> gsfile \<Rightarrow> bool" where
  "same_file f f' \<longleftrightarrow>
     filename f' = filename f \<and> task f' = task f \<and> md5sum f' = md5sum f \<and>
     gs_size f' = gs_size f \<and>
     set (used_by_tasks f) \<subseteq> set (used_by_tasks f') \<and> set (filekeys f) \<subseteq> set (filekeys f')"

section \<open>Searching the graph\<close>

text \<open>
  \<^verbatim>\<open>search_up\<close> and \<^verbatim>\<open>search_down\<close> are recursive generators. A generator that is
  consumed to its end is the list of the values it yields and the exception that ended it,
  if one did: the values yielded before an exception are part of what the caller sees.
\<close>

type_synonym 'a gen = "'a list \<times> error option"

text \<open>\<^verbatim>\<open>for x in xs: yield from g(x)\<close>: the first exception ends the loop.\<close>

fun gen_chain :: "('x \<Rightarrow> 'y gen) \<Rightarrow> 'x list \<Rightarrow> 'y gen" where
  "gen_chain g [] = ([], None)"
| "gen_chain g (x # xs) =
     (case g x of
        (ys, Some e) \<Rightarrow> (ys, Some e)
      | (ys, None) \<Rightarrow> (case gen_chain g xs of (zs, r) \<Rightarrow> (ys @ zs, r)))"

text \<open>The values yielded so far, then the rest of the generator.\<close>

definition gen_then :: "'y list \<Rightarrow> 'y gen \<Rightarrow> 'y gen" where
  "gen_then ys g = (ys @ fst g, snd g)"

text \<open>\<^verbatim>\<open>[file for file in fs if filekey in file.filekeys]\<close>, the files given by index.\<close>

definition with_key :: "analysis \<Rightarrow> string \<Rightarrow> nat list \<Rightarrow> nat list" where
  "with_key a key fs = filter (\<lambda>f. key \<in> set (filekeys (files a ! f))) fs"

text \<open>
  The files of a task that \<^verbatim>\<open>search_up\<close> looks at: \<^verbatim>\<open>task.input_files\<close> when
  \<^verbatim>\<open>inputs\<close> is set, \<^verbatim>\<open>task.output_files\<close> otherwise.
\<close>

definition offered :: "analysis \<Rightarrow> bool \<Rightarrow> nat \<Rightarrow> nat list" where
  "offered a inp t = (if inp then input_files (tasks a ! t) else output_files (tasks a ! t))"

text \<open>
  \<^verbatim>\<open>Analysis.search_up\<close>. The first argument is the number of nested calls the
  interpreter still allows: Python ends a recursion that goes deeper with a
  RecursionError, which is what a cycle of tasks runs into. The producers of the input
  files are visited once each; a file without a producer (a raw input) ends the search on
  its branch.
\<close>

fun search_up :: "nat \<Rightarrow> analysis \<Rightarrow> nat \<Rightarrow> string \<Rightarrow> string \<Rightarrow> bool \<Rightarrow> nat gen" where
  "search_up 0 a t name key inp =
     ([], Some (Raise RecursionError ''maximum recursion depth exceeded''))"
| "search_up (Suc d) a t name key inp =
     gen_then
       (if name = task_name (tasks a ! t) then with_key a key (offered a inp t) else [])
       (gen_chain
          (\<lambda>task_item. case task_item of
                         Some t' \<Rightarrow> search_up d a t' name key inp
                       | None \<Rightarrow> ([], None))
          (py_set (map (\<lambda>x. task (files a ! x)) (input_files (tasks a ! t)))))"

text \<open>
  \<^verbatim>\<open>Analysis.search_down\<close>. \<^verbatim>\<open>reduce(operator.concat, ...)\<close> has no initial value:
  on a task without output files it raises a TypeError, after the task's own matches (there
  are none) have been yielded.
\<close>

fun search_down :: "nat \<Rightarrow> analysis \<Rightarrow> nat \<Rightarrow> string \<Rightarrow> string \<Rightarrow> nat gen" where
  "search_down 0 a t name key =
     ([], Some (Raise RecursionError ''maximum recursion depth exceeded''))"
| "search_down (Suc d) a t name key =
     gen_then
       (if name = task_name (tasks a ! t)
        then with_key a key (output_files (tasks a ! t))
        else [])
       (case map (\<lambda>x. used_by_tasks (files a ! x)) (output_files (tasks a ! t)) of
          [] \<Rightarrow> ([], Some (Raise TypeError
                   ''reduce() of empty sequence with no initial value''))
        | u # us \<Rightarrow>
            gen_chain (\<lambda>task_item. search_down d a task_item name key)
              (py_set (foldl (@) u us)))"

text \<open>
  The tasks that the two searches can reach: upwards from a task to the producers of its
  input files, downwards to the consumers of its output files.
\<close>

inductive upstream :: "analysis \<Rightarrow> nat \<Rightarrow> nat \<Rightarrow> bool" for a :: analysis and t :: nat where
  up_self: "upstream a t t"
| up_step: "upstream a t t1 \<Longrightarrow> f \<in> set (input_files (tasks a ! t1))
            \<Longrightarrow> task (files a ! f) = Some t2 \<Longrightarrow> upstream a t t2"

inductive downstream :: "analysis \<Rightarrow> nat \<Rightarrow> nat \<Rightarrow> bool" for a :: analysis and t :: nat where
  down_self: "downstream a t t"
| down_step: "downstream a t t1 \<Longrightarrow> f \<in> set (output_files (tasks a ! t1))
              \<Longrightarrow> t2 \<in> set (used_by_tasks (files a ! f)) \<Longrightarrow> downstream a t t2"

section \<open>The portal, and the state of an accessioning run\<close>

text \<open>
  A record of the portal (a JSON object), by the fields that \<^verbatim>\<open>Accession\<close> reads with
  \<^verbatim>\<open>.get\<close>: absent is \<open>None\<close>, and the portal's schema makes each of them a string. The
  other fields are kept as they are.
\<close>

record enc_file =
  accession :: "string option"
  status :: "string option"
  enc_md5sum :: "string option"
  enc_output_type :: "string option"
  enc_dataset :: "string option"
  at_id :: "string option"
  other_fields :: dict

text \<open>The empty dict.\<close>

definition empty_record :: enc_file where
  "empty_record =
     \<lparr> accession = None, status = None, enc_md5sum = None, enc_output_type = None,
       enc_dataset = None, at_id = None, other_fields = [] \<rparr>"


text \<open>
  \<^verbatim>\<open>encode_utils.connection.Connection\<close> is a library outside this repository. Its four
  calls are functions of the portal's state \<open>'p\<close>, about which nothing is assumed: a search
  for the files with an md5sum, a get by identifier, and post and patch, which change the
  portal. Each can raise.
\<close>

record 'p connection =
  conn_search :: "'p \<Rightarrow> string \<Rightarrow> error + enc_file list"
  conn_get :: "'p \<Rightarrow> string option \<Rightarrow> error + enc_file"
  conn_post :: "'p \<Rightarrow> dict \<Rightarrow> error + (enc_file \<times> 'p)"
  conn_patch :: "'p \<Rightarrow> dict \<Rightarrow> error + (enc_file \<times> 'p)"

text \<open>The key under which \<^verbatim>\<open>Connection\<close> expects the identifier of the record to patch.\<close>

definition ENCID_KEY :: string where
  "ENCID_KEY = ''_enc_id''"

text \<open>The calls a run makes, in order.\<close>

datatype effect =
    Searched string
  | Got "string option"
  | Downloaded string
  | Posted dict
  | Removed string
  | Patched dict
  | AttachedQC string "string option"

text \<open>The calls that create or update a file record.\<close>

fun is_mutation :: "effect \<Rightarrow> bool" where
  "is_mutation (Posted d) = True"
| "is_mutation (Patched d) = True"
| "is_mutation x = False"

text \<open>What changes during a run: the portal, \<^verbatim>\<open>self.new_files\<close>, and the calls made.\<close>

record 'p run =
  portal :: 'p
  new_files :: "enc_file list"
  effects :: "effect list"

text \<open>The create and update calls made so far.\<close>

definition mutations :: "'p run \<Rightarrow> effect list" where
  "mutations s = filter is_mutation (effects s)"

text \<open>One entry of \<^verbatim>\<open>derived_from_files\<close>, one of \<^verbatim>\<open>wdl_files\<close>, and one step.\<close>

record ancestor =
  derived_from_task :: string
  derived_from_filekey :: string
  derived_from_output_type :: "string option"
  derived_from_inputs :: bool

record file_params =
  filekey :: string
  file_format :: string
  output_type :: string
  derived_from_files :: "ancestor list"
  file_format_type :: "string option"
  possible_duplicate :: bool
  quality_metrics :: "string list"

record step_params =
  dcc_step_run :: string
  dcc_step_version :: string
  wdl_task_name :: string
  wdl_files :: "file_params list"

text \<open>
  What stays fixed during a run: the connection, the backend, the graph, the user, and the
  depth of recursion the interpreter allows a search. \<^verbatim>\<open>file_from_template\<close> builds a
  dictionary from its arguments, \<^verbatim>\<open>lab_pi\<close> and \<^verbatim>\<open>assembly\<close> (both can raise an
  IndexError) and changes nothing; the methods of \<^verbatim>\<open>QC_MAP\<close> post quality metrics to the
  portal. Both are parameters here: \<open>template\<close> gets the file, its parameters, the step
  run, the derived_from list and the dataset.
\<close>

record 'p env =
  conn :: "'p connection"
  backend :: gc_backend
  graph :: analysis
  current_user :: json
  depth :: nat
  lab_pi :: "error + string"
  template :: "gsfile \<Rightarrow> file_params \<Rightarrow> enc_file \<Rightarrow> string list \<Rightarrow> string option
                 \<Rightarrow> error + dict"
  attach_qc :: "string \<Rightarrow> enc_file \<Rightarrow> gsfile \<Rightarrow> 'p \<Rightarrow> error + 'p"

type_synonym ('a, 'p) result = "(error + 'a) \<times> 'p run"

definition log :: "effect \<Rightarrow> 'p run \<Rightarrow> 'p run" where
  "log x s = s\<lparr>effects := effects s @ [x]\<rparr>"

text \<open>\<^verbatim>\<open>Accession.file_at_portal\<close>\<close>

definition file_at_portal :: "'p env \<Rightarrow> string \<Rightarrow> 'p run \<Rightarrow> (enc_file option, 'p) result" where
  "file_at_portal ev file s =
     (case be_md5sum (backend ev) file of
        Inl e \<Rightarrow> (Inl e, s)
      | Inr md5 \<Rightarrow>
          (case conn_search (conn ev) (portal s) md5 of
             Inl e \<Rightarrow> (Inl e, log (Searched md5) s)
           | Inr [] \<Rightarrow> (Inr None, log (Searched md5) s)
           | Inr (r # rs) \<Rightarrow>
               (case conn_get (conn ev) (portal s) (accession r) of
                  Inl e \<Rightarrow> (Inl e, log (Got (accession r)) (log (Searched md5) s))
                | Inr found \<Rightarrow>
                    (Inr (Some found), log (Got (accession r)) (log (Searched md5) s)))))"

text \<open>\<^verbatim>\<open>d[k] = v\<close> with \<^verbatim>\<open>v = x.get(...)\<close>: an absent string is \<^verbatim>\<open>None\<close>.\<close>

definition opt_str :: "string option \<Rightarrow> json" where
  "opt_str x = (case x of Some s \<Rightarrow> JStr s | None \<Rightarrow> JNull)"

text \<open>\<^verbatim>\<open>Accession.patch_file\<close>\<close>

definition patch_file :: "'p env \<Rightarrow> enc_file \<Rightarrow> dict \<Rightarrow> 'p run \<Rightarrow> (enc_file, 'p) result" where
  "patch_file ev encode_file new_properties s =
     (let payload = AList.update ENCID_KEY (opt_str (accession encode_file)) new_properties
      in case conn_patch (conn ev) (portal s) payload of
           Inl e \<Rightarrow> (Inl e, log (Patched payload) s)
         | Inr (r, p) \<Rightarrow> (Inr r, (log (Patched payload) s)\<lparr>portal := p\<rparr>))"

text \<open>
  \<^verbatim>\<open>Accession.accession_file\<close>, branch by branch. First the body of
  \<^verbatim>\<open>if not file_exists\<close>: download, post, remove the local copy, patch the submitted
  file name, remember the record.
\<close>

definition submit_new :: "'p env \<Rightarrow> dict \<Rightarrow> gsfile \<Rightarrow> 'p run \<Rightarrow> (enc_file, 'p) result" where
  "submit_new ev encode_file gs_file s =
     (case be_download (backend ev) (filename gs_file) of
        Inl e \<Rightarrow> (Inl e, s)
      | Inr local_file \<Rightarrow>
          (let payload = AList.update ''submitted_file_name'' (JStr local_file) encode_file;
               s1 = log (Posted payload) (log (Downloaded (filename gs_file)) s)
           in case conn_post (conn ev) (portal s1) payload of
                Inl e \<Rightarrow> (Inl e, s1)
              | Inr (encode_posted_file, p) \<Rightarrow>
                  (case patch_file ev encode_posted_file
                          [(''submitted_file_name'', JStr (filename gs_file))]
                          (log (Removed local_file) (s1\<lparr>portal := p\<rparr>)) of
                     (Inl e, s2) \<Rightarrow> (Inl e, s2)
                   | (Inr encode_patched_file, s2) \<Rightarrow>
                       (Inr encode_patched_file,
                        s2\<lparr>new_files := new_files s2 @ [encode_patched_file]\<rparr>))))"

text \<open>The body of the \<^verbatim>\<open>elif\<close>: the record found is deleted or revoked.\<close>

definition resubmit :: "'p env \<Rightarrow> dict \<Rightarrow> gsfile \<Rightarrow> enc_file \<Rightarrow> 'p run \<Rightarrow> (enc_file, 'p) result" where
  "resubmit ev encode_file gs_file file_exists s =
     (case patch_file ev file_exists
             (AList.update ''submitted_by'' (current_user ev)
                (AList.update ''submitted_file_name'' (JStr (filename gs_file)) encode_file)) s of
        (Inl e, s1) \<Rightarrow> (Inl e, s1)
      | (Inr encode_patched_file, s1) \<Rightarrow>
          (Inr encode_patched_file, s1\<lparr>new_files := new_files s1 @ [encode_patched_file]\<rparr>))"

text \<open>
  The three branches. \<^verbatim>\<open>not file_exists\<close> holds for \<^verbatim>\<open>None\<close> and for the empty
  dict.
\<close>

definition accession_file :: "'p env \<Rightarrow> dict \<Rightarrow> gsfile \<Rightarrow> 'p run \<Rightarrow> (enc_file, 'p) result" where
  "accession_file ev encode_file gs_file s =
     (case file_at_portal ev (filename gs_file) s of
        (Inl e, s1) \<Rightarrow> (Inl e, s1)
      | (Inr None, s1) \<Rightarrow> submit_new ev encode_file gs_file s1
      | (Inr (Some file_exists), s1) \<Rightarrow>
          (if file_exists = empty_record then submit_new ev encode_file gs_file s1
           else if status file_exists \<in> {Some ''deleted'', Some ''revoked''}
           then resubmit ev encode_file gs_file file_exists s1
           else (Inr file_exists, s1)))"

section \<open>Derived-from resolution\<close>

definition MissingAllDerivedFrom :: error where
  "MissingAllDerivedFrom = Raise Exception ''Missing all of the derived_from files on the portal''"

definition MissingSomeDerivedFrom :: error where
  "MissingSomeDerivedFrom = Raise Exception ''Missing some of the derived_from files on the portal''"

text \<open>\<^verbatim>\<open>[self.file_at_portal(gs_file.filename) for gs_file in derived_from_files]\<close>\<close>

fun files_at_portal :: "'p env \<Rightarrow> nat list \<Rightarrow> 'p run \<Rightarrow> (enc_file option list, 'p) result" where
  "files_at_portal ev [] s = (Inr [], s)"
| "files_at_portal ev (g # gs) s =
     (case file_at_portal ev (filename (files (graph ev) ! g)) s of
        (Inl e, s1) \<Rightarrow> (Inl e, s1)
      | (Inr r, s1) \<Rightarrow>
          (case files_at_portal ev gs s1 of
             (Inl e, s2) \<Rightarrow> (Inl e, s2)
           | (Inr rs, s2) \<Rightarrow> (Inr (r # rs), s2)))"

text \<open>\<^verbatim>\<open>[x for x in xs if x is not None]\<close>\<close>

fun not_none :: "'a option list \<Rightarrow> 'a list" where
  "not_none [] = []"
| "not_none (None # xs) = not_none xs"
| "not_none (Some x # xs) = x # not_none xs"

text \<open>
  The test in the inner loop of \<^verbatim>\<open>get_derived_from\<close>: the md5sums agree, and a given
  (non-empty) output type is the record's.
\<close>

definition matches :: "gsfile \<Rightarrow> string option \<Rightarrow> enc_file \<Rightarrow> bool" where
  "matches gs_file otype encode_file \<longleftrightarrow>
     Some (md5sum gs_file) = enc_md5sum encode_file \<and>
     \<not> (otype \<noteq> None \<and> otype \<noteq> Some [] \<and> otype \<noteq> enc_output_type encode_file)"

text \<open>The two nested loops, then \<^verbatim>\<open>list(set(...))\<close>.\<close>

definition derived_from_accession_ids ::
  "analysis \<Rightarrow> nat list \<Rightarrow> enc_file list \<Rightarrow> string option \<Rightarrow> string option list" where
  "derived_from_accession_ids a derived accessioned otype =
     py_set (concat (map (\<lambda>g. map accession (filter (matches (files a ! g) otype) accessioned))
                       derived))"

text \<open>\<^verbatim>\<open>'/files/{}/'.format(accession_id)\<close>\<close>

definition file_ref :: "string option \<Rightarrow> string" where
  "file_ref x = ''/files/'' @ (case x of Some s \<Rightarrow> s | None \<Rightarrow> ''None'') @ ''/''"

text \<open>
  \<^verbatim>\<open>Accession.get_derived_from\<close>; \<open>file\<close> is the index of the file in the graph. A file
  without a producer makes \<^verbatim>\<open>search_up\<close> read \<^verbatim>\<open>None.task_name\<close>.
\<close>

definition get_derived_from ::
  "'p env \<Rightarrow> nat \<Rightarrow> string \<Rightarrow> string \<Rightarrow> string option \<Rightarrow> bool \<Rightarrow> 'p run
     \<Rightarrow> (string list, 'p) result" where
  "get_derived_from ev file name key otype inp s =
     (case task (files (graph ev) ! file) of
        None \<Rightarrow>
          (Inl (Raise AttributeError ''NoneType object has no attribute task_name''), s)
      | Some t \<Rightarrow>
          (case search_up (depth ev) (graph ev) t name key inp of
             (found, Some e) \<Rightarrow> (Inl e, s)
           | (found, None) \<Rightarrow>
               (case files_at_portal ev (py_set found) s of
                  (Inl e, s1) \<Rightarrow> (Inl e, s1)
                | (Inr encode_files, s1) \<Rightarrow>
                    (let ids = derived_from_accession_ids (graph ev) (py_set found)
                                 (not_none (encode_files @ map Some (new_files s1))) otype
                     in if ids = [] then (Inl MissingAllDerivedFrom, s1)
                        else if length ids \<noteq> length (py_set found)
                        then (Inl MissingSomeDerivedFrom, s1)
                        else (Inr (map file_ref ids), s1)))))"

text \<open>\<^verbatim>\<open>Accession.get_derived_from_all\<close>, with the flattening of its result.\<close>

fun get_derived_from_all ::
  "'p env \<Rightarrow> nat \<Rightarrow> ancestor list \<Rightarrow> 'p run \<Rightarrow> (string list, 'p) result" where
  "get_derived_from_all ev file [] s = (Inr [], s)"
| "get_derived_from_all ev file (anc # ancs) s =
     (case get_derived_from ev file (derived_from_task anc) (derived_from_filekey anc)
             (derived_from_output_type anc) (derived_from_inputs anc) s of
        (Inl e, s1) \<Rightarrow> (Inl e, s1)
      | (Inr refs, s1) \<Rightarrow>
          (case get_derived_from_all ev file ancs s1 of
             (Inl e, s2) \<Rightarrow> (Inl e, s2)
           | (Inr others, s2) \<Rightarrow> (Inr (refs @ others), s2)))"

section \<open>Accessioning a step\<close>

text \<open>\<^verbatim>\<open>Analysis.raw_fastqs\<close> and \<^verbatim>\<open>Accession.dataset\<close>\<close>

definition raw_fastqs :: "analysis \<Rightarrow> gsfile list" where
  "raw_fastqs a = filter (\<lambda>f. ''fastqs'' \<in> set (filekeys f) \<and> task f = None) (files a)"

definition dataset :: "'p env \<Rightarrow> 'p run \<Rightarrow> (string option, 'p) result" where
  "dataset ev s =
     (case raw_fastqs (graph ev) of
        [] \<Rightarrow> (Inl (Raise IndexError ''list index out of range''), s)
      | f # fs \<Rightarrow>
          (case file_at_portal ev (filename f) s of
             (Inl e, s1) \<Rightarrow> (Inl e, s1)
           | (Inr None, s1) \<Rightarrow>
               (Inl (Raise AttributeError ''NoneType object has no attribute get''), s1)
           | (Inr (Some r), s1) \<Rightarrow> (Inr (enc_dataset r), s1)))"

text \<open>\<^verbatim>\<open>Accession.make_file_obj\<close>\<close>

definition make_file_obj ::
  "'p env \<Rightarrow> nat \<Rightarrow> file_params \<Rightarrow> enc_file \<Rightarrow> 'p run \<Rightarrow> (dict, 'p) result" where
  "make_file_obj ev file fp step_run s =
     (case get_derived_from_all ev file (derived_from_files fp) s of
        (Inl e, s1) \<Rightarrow> (Inl e, s1)
      | (Inr derived_from, s1) \<Rightarrow>
          (case dataset ev s1 of
             (Inl e, s2) \<Rightarrow> (Inl e, s2)
           | (Inr ds, s2) \<Rightarrow>
               (case template ev (files (graph ev) ! file) fp step_run derived_from ds of
                  Inl e \<Rightarrow> (Inl e, s2)
                | Inr obj \<Rightarrow> (Inr obj, s2))))"

text \<open>The body of the \<^verbatim>\<open>try\<close> in \<^verbatim>\<open>accession_step\<close>.\<close>

definition try_file ::
  "'p env \<Rightarrow> enc_file \<Rightarrow> file_params \<Rightarrow> nat \<Rightarrow> 'p run \<Rightarrow> (enc_file, 'p) result" where
  "try_file ev step_run fp file s =
     (case make_file_obj ev file fp step_run s of
        (Inl e, s1) \<Rightarrow> (Inl e, s1)
      | (Inr obj, s1) \<Rightarrow> accession_file ev obj (files (graph ev) ! file) s1)"

text \<open>
  The loop over \<^verbatim>\<open>quality_metrics\<close>: an unknown name is a KeyError of \<^verbatim>\<open>QC_MAP\<close>; the
  method gets the record as the portal returns it.
\<close>

definition QC_MAP :: "(string \<times> string) list" where
  "QC_MAP =
     [(''cross_correlation'', ''attach_cross_correlation_qc_to''),
      (''samtools_flagstat'', ''attach_flagstat_qc_to''),
      (''idr'', ''attach_idr_qc_to'')]"

fun attach_all :: "'p env \<Rightarrow> string list \<Rightarrow> enc_file \<Rightarrow> gsfile \<Rightarrow> 'p run \<Rightarrow> (unit, 'p) result" where
  "attach_all ev [] encode_file gs_file s = (Inr (), s)"
| "attach_all ev (qc # qcs) encode_file gs_file s =
     (case map_of QC_MAP qc of
        None \<Rightarrow> (Inl (Raise KeyError qc), s)
      | Some qc_method \<Rightarrow>
          (case conn_get (conn ev) (portal s) (accession encode_file) of
             Inl e \<Rightarrow> (Inl e, log (Got (accession encode_file)) s)
           | Inr r \<Rightarrow>
               (case attach_qc ev qc_method r gs_file (portal s) of
                  Inl e \<Rightarrow>
                    (Inl e, log (AttachedQC qc_method (accession encode_file))
                              (log (Got (accession encode_file)) s))
                | Inr p \<Rightarrow>
                    attach_all ev qcs encode_file gs_file
                      ((log (AttachedQC qc_method (accession encode_file))
                          (log (Got (accession encode_file)) s))\<lparr>portal := p\<rparr>))))"

text \<open>\<^verbatim>\<open>Analysis.get_tasks\<close>, as indices.\<close>

definition get_tasks :: "analysis \<Rightarrow> string \<Rightarrow> nat list" where
  "get_tasks a name = filter (\<lambda>t. name = task_name (tasks a ! t)) [0..<length (tasks a)]"

text \<open>
  The pairs that the three nested loops of \<^verbatim>\<open>accession_step\<close> visit, in order: for
  every task of the name, for every entry of \<^verbatim>\<open>wdl_files\<close>, every output file of the
  task with the entry's key.
\<close>

definition step_items :: "analysis \<Rightarrow> step_params \<Rightarrow> (file_params \<times> nat) list" where
  "step_items a sp =
     concat (map (\<lambda>t. concat (map (\<lambda>fp. map (\<lambda>f. (fp, f))
                                           (with_key a (filekey fp) (output_files (tasks a ! t))))
                                (wdl_files sp)))
               (get_tasks a (wdl_task_name sp)))"

text \<open>
  The loop body with its \<^verbatim>\<open>except\<close> clause; \<open>done\<close> is \<^verbatim>\<open>accessioned_files\<close>.
\<close>

fun accession_items ::
  "'p env \<Rightarrow> enc_file \<Rightarrow> (file_params \<times> nat) list \<Rightarrow> enc_file list \<Rightarrow> 'p run
     \<Rightarrow> (enc_file list, 'p) result" where
  "accession_items ev step_run [] done s = (Inr done, s)"
| "accession_items ev step_run (item # items) done s =
     (case try_file ev step_run (fst item) (snd item) s of
        (Inl e, s1) \<Rightarrow>
          (if str_in ''Conflict'' (str_of e) \<and> possible_duplicate (fst item)
           then accession_items ev step_run items done s1
           else if str_in ''Missing all of the derived_from'' (str_of e)
           then accession_items ev step_run items done s1
           else (Inl e, s1))
      | (Inr encode_file, s1) \<Rightarrow>
          (case attach_all ev (quality_metrics (fst item)) encode_file
                  (files (graph ev) ! snd item) s1 of
             (Inl e, s2) \<Rightarrow> (Inl e, s2)
           | (Inr u, s2) \<Rightarrow> accession_items ev step_run items (done @ [encode_file]) s2))"

text \<open>
  \<^verbatim>\<open>Accession.get_or_make_step_run\<close>: the tag of the docker image of the first task of
  the name, and a post of the step run.
\<close>

definition PROFILE_KEY :: string where
  "PROFILE_KEY = ''_profile''"

definition get_or_make_step_run ::
  "'p env \<Rightarrow> string \<Rightarrow> string \<Rightarrow> string \<Rightarrow> string \<Rightarrow> 'p run \<Rightarrow> (enc_file, 'p) result" where
  "get_or_make_step_run ev lab_prefix run_name step_version name s =
     (case get_tasks (graph ev) name of
        [] \<Rightarrow> (Inl (Raise IndexError ''list index out of range''), s)
      | t # ts \<Rightarrow>
          (case docker_image (tasks (graph ev) ! t) of
             None \<Rightarrow> (Inl (Raise AttributeError ''NoneType object has no attribute split''), s)
           | Some img \<Rightarrow>
               (case split_on CHR '':'' img of
                  x # docker_tag # rest \<Rightarrow>
                    (let payload =
                           [(''aliases'',
                             JList [JStr (lab_prefix @ '':'' @ run_name @ ''-'' @ docker_tag)]),
                            (''status'', JStr ''released''),
                            (''analysis_step_version'', JStr step_version),
                            (PROFILE_KEY, JStr ''analysis_step_runs'')]
                     in case conn_post (conn ev) (portal s) payload of
                          Inl e \<Rightarrow> (Inl e, log (Posted payload) s)
                        | Inr (r, p) \<Rightarrow> (Inr r, (log (Posted payload) s)\<lparr>portal := p\<rparr>))
                | _ \<Rightarrow> (Inl (Raise IndexError ''list index out of range''), s))))"

text \<open>\<^verbatim>\<open>Accession.accession_step\<close> and \<^verbatim>\<open>Accession.accession_steps\<close>\<close>

definition accession_step :: "'p env \<Rightarrow> step_params \<Rightarrow> 'p run \<Rightarrow> (enc_file list, 'p) result" where
  "accession_step ev sp s =
     (case lab_pi ev of
        Inl e \<Rightarrow> (Inl e, s)
      | Inr lab \<Rightarrow>
          (case get_or_make_step_run ev lab (dcc_step_run sp) (dcc_step_version sp)
                  (wdl_task_name sp) s of
             (Inl e, s1) \<Rightarrow> (Inl e, s1)
           | (Inr step_run, s1) \<Rightarrow>
               accession_items ev step_run (step_items (graph ev) sp) [] s1))"

fun accession_steps :: "'p env \<Rightarrow> step_params list \<Rightarrow> 'p run \<Rightarrow> (unit, 'p) result" where
  "accession_steps ev [] s = (Inr (), s)"
| "accession_steps ev (step # steps) s =
     (case accession_step ev step s of
        (Inl e, s1) \<Rightarrow> (Inl e, s1)
      | (Inr accessioned, s1) \<Rightarrow> accession_steps ev steps s1)"

section \<open>Example runs\<close>

text \<open>
  A backend that knows every location, and the run of the specification's example: task
  \<open>align\<close> reads a fastq and writes \<open>x.bam\<close> under the key \<open>bam\<close>, task \<open>dedup\<close>
  reads \<open>x.bam\<close> and writes \<open>y.bam\<close> under the key \<open>nodup_bam\<close>.
\<close>

definition demo_backend :: gc_backend where
  "demo_backend =
     \<lparr> be_md5sum = (\<lambda>fn. Inr (''md5:'' @ fn)),
       be_size = (\<lambda>fn. Inr (length fn)),
       be_download = (\<lambda>fn. Inr ''/tmp/local'') \<rparr>"

definition demo_calls :: calls where
  "demo_calls =
     [(''atac.align'',
        [\<lparr> call_inputs = [(''fastqs'', JList [JStr ''gs://b/r.fq''])],
           call_outputs = [(''bam'', JStr ''gs://b/x.bam'')],
           dockerImageUsed = Some ''img:v1'' \<rparr>]),
      (''atac.dedup'',
        [\<lparr> call_inputs = [(''bam'', JStr ''gs://b/x.bam'')],
           call_outputs = [(''nodup_bam'', JStr ''gs://b/y.bam'')],
           dockerImageUsed = Some ''img:v1'' \<rparr>])]"

text \<open>
  A run in which two shards of \<open>align\<close> report the same output location (a cached call),
  which \<open>dedup\<close> reads.
\<close>

definition shard_calls :: calls where
  "shard_calls =
     [(''atac.align'',
        [\<lparr> call_inputs = [], call_outputs = [(''bam'', JStr ''gs://b/x.bam'')],
           dockerImageUsed = None \<rparr>,
         \<lparr> call_inputs = [], call_outputs = [(''bam'', JStr ''gs://b/x.bam'')],
           dockerImageUsed = None \<rparr>]),
      (''atac.dedup'',
        [\<lparr> call_inputs = [(''bam'', JStr ''gs://b/x.bam'')], call_outputs = [],
           dockerImageUsed = None \<rparr>])]"

text \<open>The graphs that \<open>make_tasks\<close> builds from the two runs.\<close>

definition demo_graph :: analysis where
  "demo_graph =
     \<lparr> files =
         [\<lparr> filename = ''gs://b/x.bam'', filekeys = [''bam''], task = Some 0,
             used_by_tasks = [1], md5sum = ''md5:gs://b/x.bam'', gs_size = 12 \<rparr>,
          \<lparr> filename = ''gs://b/y.bam'', filekeys = [''nodup_bam''], task = Some 1,
             used_by_tasks = [], md5sum = ''md5:gs://b/y.bam'', gs_size = 12 \<rparr>,
          \<lparr> filename = ''gs://b/r.fq'', filekeys = [''fastqs''], task = None,
             used_by_tasks = [0], md5sum = ''md5:gs://b/r.fq'', gs_size = 11 \<rparr>],
       tasks =
         [\<lparr> task_name = ''align'', input_files = [2], output_files = [0],
             inputs = [(''fastqs'', JList [JStr ''gs://b/r.fq''])],
             outputs = [(''bam'', JStr ''gs://b/x.bam'')],
             docker_image = Some ''img:v1'' \<rparr>,
          \<lparr> task_name = ''dedup'', input_files = [0], output_files = [1],
             inputs = [(''bam'', JStr ''gs://b/x.bam'')],
             outputs = [(''nodup_bam'', JStr ''gs://b/y.bam'')],
             docker_image = Some ''img:v1'' \<rparr>] \<rparr>"

definition shard_graph :: analysis where
  "shard_graph =
     \<lparr> files =
         [\<lparr> filename = ''gs://b/x.bam'', filekeys = [''bam''], task = Some 0,
             used_by_tasks = [2], md5sum = ''md5:gs://b/x.bam'', gs_size = 12 \<rparr>],
       tasks =
         [\<lparr> task_name = ''align'', input_files = [], output_files = [0],
             inputs = [], outputs = [(''bam'', JStr ''gs://b/x.bam'')],
             docker_image = None \<rparr>,
          \<lparr> task_name = ''align'', input_files = [], output_files = [0],
             inputs = [], outputs = [(''bam'', JStr ''gs://b/x.bam'')],
             docker_image = None \<rparr>,
          \<lparr> task_name = ''dedup'', input_files = [0], output_files = [],
             inputs = [(''bam'', JStr ''gs://b/x.bam'')], outputs = [],
             docker_image = None \<rparr>] \<rparr>"

text \<open>
  An example portal: its state is the list of its file records. A search returns the
  records with the md5sum, a get the first record with the accession. A post is refused
  with a conflict when a record that is not deleted or revoked has the payload's md5sum,
  and otherwise files a record with the next accession; a patch rewrites the status of the
  record that \<open>ENCID_KEY\<close> names, when the payload has one.
\<close>

definition str_field :: "dict \<Rightarrow> string \<Rightarrow> string option" where
  "str_field d k = (case map_of d k of Some (JStr s) \<Rightarrow> Some s | _ \<Rightarrow> None)"

definition demo_post :: "enc_file list \<Rightarrow> dict \<Rightarrow> error + (enc_file \<times> enc_file list)" where
  "demo_post p payload =
     (if \<exists>r\<in>set p. enc_md5sum r \<noteq> None \<and> enc_md5sum r = str_field payload ''md5sum'' \<and>
                     status r \<notin> {Some ''deleted'', Some ''revoked''}
      then Inl (Raise HTTPError ''409 Client Error: Conflict'')
      else (let r = \<lparr> accession = Some (''ENCFF'' @ replicate (Suc (length p)) CHR ''A''),
                        status = str_field payload ''status'',
                        enc_md5sum = str_field payload ''md5sum'',
                        enc_output_type = str_field payload ''output_type'',
                        enc_dataset = str_field payload ''dataset'',
                        at_id = None, other_fields = [] \<rparr>
            in Inr (r, p @ [r])))"

fun demo_patch_records :: "enc_file list \<Rightarrow> dict \<Rightarrow> (enc_file \<times> enc_file list) option" where
  "demo_patch_records [] payload = None"
| "demo_patch_records (r # rs) payload =
     (if Some (opt_str (accession r)) = map_of payload ENCID_KEY
      then (let r' = (case str_field payload ''status'' of
                        Some st \<Rightarrow> r\<lparr>status := Some st\<rparr>
                      | None \<Rightarrow> r)
            in Some (r', r' # rs))
      else (case demo_patch_records rs payload of
              None \<Rightarrow> None
            | Some (r', rs') \<Rightarrow> Some (r', r # rs')))"

definition demo_conn :: "enc_file list connection" where
  "demo_conn =
     \<lparr> conn_search = (\<lambda>p md5. Inr (filter (\<lambda>r. enc_md5sum r = Some md5) p)),
       conn_get = (\<lambda>p acc. case filter (\<lambda>r. accession r = acc) p of
                              [] \<Rightarrow> Inl (Raise HTTPError ''404 Client Error: Not Found'')
                            | r # rs \<Rightarrow> Inr r),
       conn_post = demo_post,
       conn_patch = (\<lambda>p payload. case demo_patch_records p payload of
                                  None \<Rightarrow> Inl (Raise HTTPError ''404 Client Error: Not Found'')
                                | Some x \<Rightarrow> Inr x) \<rparr>"

text \<open>The environment of the example run, on the graph of the example.\<close>

definition demo_env :: "enc_file list env" where
  "demo_env =
     \<lparr> conn = demo_conn, backend = demo_backend, graph = demo_graph,
       current_user = JStr ''/users/me/'', depth = 10, lab_pi = Inr ''encode-processing-pipeline'',
       template = (\<lambda>f fp step_run derived_from ds.
                     Inr [(''status'', JStr ''uploading''),
                          (''output_type'', JStr (output_type fp)),
                          (''derived_from'', JList (map JStr derived_from)),
                          (''md5sum'', JStr (md5sum f))]),
       attach_qc = (\<lambda>name r f p. Inr p) \<rparr>"

text \<open>Records of the file \<open>x.bam\<close> and of the fastq, and a start state on a portal.\<close>

definition file_record :: "string \<Rightarrow> string \<Rightarrow> string \<Rightarrow> enc_file" where
  "file_record acc st md5 =
     \<lparr> accession = Some acc, status = Some st, enc_md5sum = Some md5, enc_output_type = None,
       enc_dataset = Some ''/experiments/ENCSR000AAA/'', at_id = None, other_fields = [] \<rparr>"

definition start :: "enc_file list \<Rightarrow> enc_file list run" where
  "start p = \<lparr> portal = p, new_files = [], effects = [] \<rparr>"

definition x_bam :: gsfile where
  "x_bam = files demo_graph ! 0"

text \<open>A candidate for \<open>x.bam\<close>, and the records of the example portal.\<close>

definition cand :: dict where
  "cand = [(''md5sum'', JStr ''md5:gs://b/x.bam''), (''status'', JStr ''uploading'')]"

definition live_record :: enc_file where
  "live_record = file_record ''ENCFF1'' ''released'' ''md5:gs://b/x.bam''"

definition deleted_record :: enc_file where
  "deleted_record = file_record ''ENCFF1'' ''deleted'' ''md5:gs://b/x.bam''"

definition other_record :: enc_file where
  "other_record = file_record ''ENCFF2'' ''released'' ''md5:gs://b/x.bam''"

definition posted_record :: enc_file where
  "posted_record =
     \<lparr> accession = Some ''ENCFFA'', status = Some ''uploading'',
       enc_md5sum = Some ''md5:gs://b/x.bam'', enc_output_type = None,
       enc_dataset = None, at_id = None, other_fields = [] \<rparr>"

text \<open>
  A run in which \<open>align\<close> writes two files under the key \<open>bam\<close> and \<open>dedup\<close> reads
  both, on a backend where every file has the same md5sum (two empty files, say).
\<close>

definition twin_backend :: gc_backend where
  "twin_backend =
     \<lparr> be_md5sum = (\<lambda>fn. Inr ''d41d8cd9''),
       be_size = (\<lambda>fn. Inr 0),
       be_download = (\<lambda>fn. Inr ''/tmp/local'') \<rparr>"

definition twin_calls :: calls where
  "twin_calls =
     [(''atac.align'',
        [\<lparr> call_inputs = [],
           call_outputs = [(''bam'', JList [JStr ''gs://b/x1.bam'', JStr ''gs://b/x2.bam''])],
           dockerImageUsed = None \<rparr>]),
      (''atac.dedup'',
        [\<lparr> call_inputs = [(''bam'', JList [JStr ''gs://b/x1.bam'', JStr ''gs://b/x2.bam''])],
           call_outputs = [(''nodup_bam'', JStr ''gs://b/y.bam'')],
           dockerImageUsed = None \<rparr>])]"

definition twin_graph :: analysis where
  "twin_graph =
     \<lparr> files =
         [\<lparr> filename = ''gs://b/x1.bam'', filekeys = [''bam''], task = Some 0,
             used_by_tasks = [1], md5sum = ''d41d8cd9'', gs_size = 0 \<rparr>,
          \<lparr> filename = ''gs://b/x2.bam'', filekeys = [''bam''], task = Some 0,
             used_by_tasks = [1], md5sum = ''d41d8cd9'', gs_size = 0 \<rparr>,
          \<lparr> filename = ''gs://b/y.bam'', filekeys = [''nodup_bam''], task = Some 1,
             used_by_tasks = [], md5sum = ''d41d8cd9'', gs_size = 0 \<rparr>],
       tasks =
         [\<lparr> task_name = ''align'', input_files = [], output_files = [0, 1],
             inputs = [],
             outputs = [(''bam'', JList [JStr ''gs://b/x1.bam'', JStr ''gs://b/x2.bam''])],
             docker_image = None \<rparr>,
          \<lparr> task_name = ''dedup'', input_files = [0, 1], output_files = [2],
             inputs = [(''bam'', JList [JStr ''gs://b/x1.bam'', JStr ''gs://b/x2.bam''])],
             outputs = [(''nodup_bam'', JStr ''gs://b/y.bam'')],
             docker_image = None \<rparr>] \<rparr>"

definition twin_env :: "enc_file list env" where
  "twin_env = demo_env\<lparr>backend := twin_backend, graph := twin_graph\<rparr>"

definition twin_record1 :: enc_file where
  "twin_record1 = file_record ''ENCFF1'' ''released'' ''d41d8cd9''"

definition twin_record2 :: enc_file where
  "twin_record2 = file_record ''ENCFF2'' ''released'' ''d41d8cd9''"

text \<open>
  Two states of a run. In the first the portal holds two records with the md5sum of
  \<open>x.bam\<close>, and the second of them was patched earlier in the run. In the second the same
  holds on the portal of the twin run.
\<close>

definition surplus_state :: "enc_file list run" where
  "surplus_state =
     \<lparr> portal = [live_record, other_record], new_files = [other_record], effects = [] \<rparr>"

definition offset_state :: "enc_file list run" where
  "offset_state =
     \<lparr> portal = [twin_record1, twin_record2], new_files = [twin_record2], effects = [] \<rparr>"

text \<open>
  The steps of the example: \<open>align\<close> submits \<open>x.bam\<close>, derived from the fastq among its
  inputs; \<open>dedup\<close> submits \<open>y.bam\<close>, derived from the \<open>bam\<close> of \<open>align\<close>. The portal
  of the example holds the record of the fastq.
\<close>

definition fastq_record :: enc_file where
  "fastq_record = file_record ''ENCFF0'' ''released'' ''md5:gs://b/r.fq''"

definition bam_params :: file_params where
  "bam_params =
     \<lparr> filekey = ''bam'', file_format = ''bam'', output_type = ''alignments'',
       derived_from_files =
         [\<lparr> derived_from_task = ''align'', derived_from_filekey = ''fastqs'',
            derived_from_output_type = None, derived_from_inputs = True \<rparr>],
       file_format_type = None, possible_duplicate = False, quality_metrics = [] \<rparr>"

definition nodup_params :: file_params where
  "nodup_params =
     \<lparr> filekey = ''nodup_bam'', file_format = ''bam'', output_type = ''alignments'',
       derived_from_files =
         [\<lparr> derived_from_task = ''align'', derived_from_filekey = ''bam'',
            derived_from_output_type = None, derived_from_inputs = False \<rparr>],
       file_format_type = None, possible_duplicate = False, quality_metrics = [] \<rparr>"

definition align_step :: step_params where
  "align_step =
     \<lparr> dcc_step_run = ''run1'', dcc_step_version = ''/analysis-step-versions/1/'',
       wdl_task_name = ''align'', wdl_files = [bam_params] \<rparr>"

definition dedup_step :: step_params where
  "dedup_step =
     \<lparr> dcc_step_run = ''run2'', dcc_step_version = ''/analysis-step-versions/2/'',
       wdl_task_name = ''dedup'', wdl_files = [nodup_params] \<rparr>"

text \<open>
  A file entry that may be a duplicate and has no ancestors, and a portal that refuses
  every post with a conflict.
\<close>

definition dup_params :: file_params where
  "dup_params = bam_params\<lparr>derived_from_files := [], possible_duplicate := True\<rparr>"

definition conflict_env :: "enc_file list env" where
  "conflict_env =
     demo_env\<lparr>conn := demo_conn\<lparr>conn_post :=
       (\<lambda>p payload. Inl (Raise HTTPError ''409 Client Error: Conflict''))\<rparr>\<rparr>"

text \<open>
  The records that the example portal files for \<open>x.bam\<close> and \<open>y.bam\<close> when the two
  steps run on it, and a state in which only \<open>new_files\<close> knows the record of
  \<open>x.bam\<close> (the portal's search does not list it yet).
\<close>

definition x_record :: enc_file where
  "x_record =
     \<lparr> accession = Some ''ENCFFAAA'', status = Some ''uploading'',
       enc_md5sum = Some ''md5:gs://b/x.bam'', enc_output_type = Some ''alignments'',
       enc_dataset = None, at_id = None, other_fields = [] \<rparr>"

definition y_record :: enc_file where
  "y_record =
     \<lparr> accession = Some ''ENCFFAAAAA'', status = Some ''uploading'',
       enc_md5sum = Some ''md5:gs://b/y.bam'', enc_output_type = Some ''alignments'',
       enc_dataset = None, at_id = None, other_fields = [] \<rparr>"

definition cache_state :: "enc_file list run" where
  "cache_state = \<lparr> portal = [], new_files = [posted_record], effects = [] \<rparr>"

text \<open>The step run that the example portal files when it already holds two records.\<close>

definition step_run_record :: enc_file where
  "step_run_record =
     \<lparr> accession = Some ''ENCFFAAA'', status = Some ''released'', enc_md5sum = None,
       enc_output_type = None, enc_dataset = None, at_id = None, other_fields = [] \<rparr>"

text \<open>
  An environment whose storage backend fails every download, with a message that happens
  to contain the word the \<^verbatim>\<open>except\<close> clause looks for, and a step whose only file entry is
  the possible duplicate.
\<close>

definition outage_env :: "enc_file list env" where
  "outage_env =
     demo_env\<lparr>backend := demo_backend\<lparr>be_download :=
       (\<lambda>fn. Inl (Raise BackendError (''Conflict: cannot download '' @ fn)))\<rparr>\<rparr>"

definition dup_step :: step_params where
  "dup_step = align_step\<lparr>wdl_files := [dup_params]\<rparr>"

lemma find_file_None: "find_file fn fs = None \<longleftrightarrow> fn \<notin> filename ` set fs"
  by (induction fs) auto

lemma find_file_Some: "find_file fn fs = Some i \<Longrightarrow> i < length fs \<and> filename (fs ! i) = fn"
  by (induction fs arbitrary: i) (auto split: if_splits)

lemma filename_touch: "filename (touch k u f) = filename f"
  by (simp add: touch_def Let_def split: option.splits)

lemma task_touch: "task (touch k u f) = task f"
  by (simp add: touch_def Let_def split: option.splits)

lemma map_filename_update:
  "i < length fs \<Longrightarrow> filename x = filename (fs ! i) \<Longrightarrow> map filename (fs[i := x]) = map filename fs"
  by (simp add: map_update list_update_same_conv)

lemma gomf_names:
  assumes "get_or_make_file be key fn tsk used fs = Inr (i, fs')"
  shows "map filename fs' =
           (if fn \<in> filename ` set fs then map filename fs else map filename fs @ [fn])"
proof (cases "find_file fn fs")
  case None
  then have "fn \<notin> filename ` set fs" by (simp add: find_file_None)
  with assms None show ?thesis
    by (auto simp: get_or_make_file_def GSFile_def split: sum.splits)
next
  case (Some j)
  then have j: "j < length fs" "filename (fs ! j) = fn" using find_file_Some by blast+
  then have "fn \<in> filename ` set fs" by (metis imageI nth_mem)
  with assms Some j show ?thesis
    by (auto simp: get_or_make_file_def map_filename_update filename_touch)
qed

lemma refs_names:
  "get_or_make_refs be rs tsk used fs = Inr (js, fs') \<Longrightarrow> distinct (map filename fs)
   \<Longrightarrow> distinct (map filename fs') \<and> filename ` set fs' = filename ` set fs \<union> snd ` set rs"
proof (induction rs arbitrary: fs js)
  case Nil
  then show ?case by simp
next
  case (Cons r rs)
  from Cons.prems(1) obtain i fs1 ks where
    s1: "get_or_make_file be (fst r) (snd r) tsk used fs = Inr (i, fs1)" and
    s2: "get_or_make_refs be rs tsk used fs1 = Inr (ks, fs')"
    by (auto split: sum.splits prod.splits)
  have n: "map filename fs1 =
      (if snd r \<in> filename ` set fs then map filename fs else map filename fs @ [snd r])"
    using gomf_names [OF s1] .
  have d1: "distinct (map filename fs1)" using n Cons.prems(2) by (auto split: if_splits)
  have e1: "filename ` set fs1 = insert (snd r) (filename ` set fs)"
  proof -
    have "set (map filename fs1) = insert (snd r) (set (map filename fs))"
      unfolding n by auto
    then show ?thesis by simp
  qed
  from Cons.IH [OF s2 d1] e1 show ?case by auto
qed

lemma same_file_name: "same_file f g \<Longrightarrow> filename g = filename f"
  by (simp add: same_file_def)

lemma same_file_task: "same_file f g \<Longrightarrow> task g = task f"
  by (simp add: same_file_def)

lemma same_file_refl: "same_file f f"
  by (simp add: same_file_def)

lemma same_file_trans: "same_file f g \<Longrightarrow> same_file g h \<Longrightarrow> same_file f h"
  by (auto simp: same_file_def)

lemma same_file_touch: "same_file f (touch k u f)"
  by (auto simp: same_file_def touch_def Let_def split: option.splits)

lemma touch_has: "k \<in> set (filekeys (touch k u f)) \<and> (\<forall>x. u = Some x \<longrightarrow> x \<in> set (used_by_tasks (touch k u f)))"
  by (auto simp: touch_def Let_def split: option.splits)

lemma gomf_hit:
  "find_file fn fs = Some j \<Longrightarrow> get_or_make_file be key fn tsk used fs = Inr (i, fs')
   \<Longrightarrow> i = j \<and> fs' = fs[j := touch key used (fs ! j)]"
  by (auto simp: get_or_make_file_def)

lemma gomf_old:
  assumes "get_or_make_file be key fn tsk used fs = Inr (i, fs')" and "f \<in> set fs"
  shows "\<exists>f'\<in>set fs'. same_file f f'"
proof (cases "find_file fn fs")
  case None
  with assms have "f \<in> set fs'"
    by (auto simp: get_or_make_file_def split: sum.splits)
  then show ?thesis using same_file_refl by blast
next
  case (Some j)
  then have j: "j < length fs" using find_file_Some by blast
  from assms Some have fs': "fs' = fs[j := touch key used (fs ! j)]"
    using gomf_hit by blast
  from assms(2) obtain m where m: "m < length fs" "f = fs ! m"
    by (auto simp: in_set_conv_nth)
  show ?thesis
  proof (cases "m = j")
    case True
    then have "touch key used f \<in> set fs'" using fs' j m
      by (metis length_list_update nth_list_update_eq nth_mem)
    then show ?thesis using same_file_touch by blast
  next
    case False
    then have "f \<in> set fs'" using fs' m
      by (metis length_list_update nth_list_update_neq nth_mem)
    then show ?thesis using same_file_refl by blast
  qed
qed

lemma gomf_new:
  assumes "get_or_make_file be key fn tsk used fs = Inr (i, fs')" and "f' \<in> set fs'"
  shows "(\<exists>f\<in>set fs. same_file f f') \<or>
         (fn \<notin> filename ` set fs \<and> filename f' = fn \<and> task f' = tsk)"
proof (cases "find_file fn fs")
  case None
  then have "fn \<notin> filename ` set fs" by (simp add: find_file_None)
  moreover from assms None have "f' \<in> set fs \<or> (filename f' = fn \<and> task f' = tsk)"
    by (auto simp: get_or_make_file_def GSFile_def split: sum.splits)
  ultimately show ?thesis using same_file_refl by blast
next
  case (Some j)
  then have j: "j < length fs" using find_file_Some by blast
  from assms Some have fs': "fs' = fs[j := touch key used (fs ! j)]"
    using gomf_hit by blast
  from assms(2) fs' have "f' = touch key used (fs ! j) \<or> f' \<in> set fs"
    using set_update_subset_insert by fastforce
  then show ?thesis using same_file_touch same_file_refl j nth_mem by blast
qed

lemma gomf_res:
  assumes "get_or_make_file be key fn tsk used fs = Inr (i, fs')"
  shows "i < length fs' \<and> filename (fs' ! i) = fn \<and> key \<in> set (filekeys (fs' ! i)) \<and>
         (\<forall>u. used = Some u \<longrightarrow> u \<in> set (used_by_tasks (fs' ! i)))"
proof (cases "find_file fn fs")
  case None
  with assms show ?thesis
    by (auto simp: get_or_make_file_def GSFile_def split: sum.splits)
next
  case (Some j)
  then have j: "j < length fs" "filename (fs ! j) = fn" using find_file_Some by blast+
  from assms Some have "fs' = fs[j := touch key used (fs ! j)]" "i = j"
    using gomf_hit by blast+
  with j show ?thesis by (simp add: filename_touch touch_has)
qed

lemma refs_old:
  "get_or_make_refs be rs tsk used fs = Inr (js, fs') \<Longrightarrow> f \<in> set fs
   \<Longrightarrow> \<exists>f'\<in>set fs'. same_file f f'"
proof (induction rs arbitrary: fs js f)
  case Nil
  then show ?case using same_file_refl by auto
next
  case (Cons r rs)
  from Cons.prems(1) obtain i fs1 ks where
    s1: "get_or_make_file be (fst r) (snd r) tsk used fs = Inr (i, fs1)" and
    s2: "get_or_make_refs be rs tsk used fs1 = Inr (ks, fs')"
    by (auto split: sum.splits prod.splits)
  from gomf_old [OF s1 Cons.prems(2)] obtain f1 where "f1 \<in> set fs1" "same_file f f1" by blast
  with Cons.IH [OF s2] show ?case using same_file_trans by blast
qed

lemma refs_new:
  "get_or_make_refs be rs tsk used fs = Inr (js, fs') \<Longrightarrow> f' \<in> set fs'
   \<Longrightarrow> (\<exists>f\<in>set fs. same_file f f') \<or>
       (filename f' \<notin> filename ` set fs \<and> filename f' \<in> snd ` set rs \<and> task f' = tsk)"
proof (induction rs arbitrary: fs js)
  case Nil
  then show ?case using same_file_refl by auto
next
  case (Cons r rs)
  from Cons.prems(1) obtain i fs1 ks where
    s1: "get_or_make_file be (fst r) (snd r) tsk used fs = Inr (i, fs1)" and
    s2: "get_or_make_refs be rs tsk used fs1 = Inr (ks, fs')"
    by (auto split: sum.splits prod.splits)
  have n1: "filename ` set fs \<subseteq> filename ` set fs1"
  proof
    fix x assume "x \<in> filename ` set fs"
    then obtain f where f: "f \<in> set fs" "x = filename f" by blast
    from gomf_old [OF s1 f(1)] obtain f1 where "f1 \<in> set fs1" "same_file f f1" by blast
    then show "x \<in> filename ` set fs1" using f(2) by (metis imageI same_file_name)
  qed
  from Cons.IH [OF s2 Cons.prems(2)] show ?case
  proof
    assume "\<exists>f\<in>set fs1. same_file f f'"
    then obtain f1 where f1: "f1 \<in> set fs1" "same_file f1 f'" by blast
    from gomf_new [OF s1 f1(1)] show ?thesis
    proof
      assume "\<exists>f\<in>set fs. same_file f f1"
      then show ?thesis using f1(2) same_file_trans by blast
    next
      assume "snd r \<notin> filename ` set fs \<and> filename f1 = snd r \<and> task f1 = tsk"
      then show ?thesis using f1(2) by (auto simp: same_file_def)
    qed
  next
    assume "filename f' \<notin> filename ` set fs1 \<and> filename f' \<in> snd ` set rs \<and> task f' = tsk"
    then show ?thesis using n1 by auto
  qed
qed

lemma refs_res:
  "get_or_make_refs be rs tsk used fs = Inr (js, fs') \<Longrightarrow> r \<in> set rs
   \<Longrightarrow> \<exists>f'\<in>set fs'. filename f' = snd r \<and> fst r \<in> set (filekeys f') \<and>
                    (\<forall>u. used = Some u \<longrightarrow> u \<in> set (used_by_tasks f'))"
proof (induction rs arbitrary: fs js)
  case Nil
  then show ?case by simp
next
  case (Cons r0 rs)
  from Cons.prems(1) obtain i fs1 ks where
    s1: "get_or_make_file be (fst r0) (snd r0) tsk used fs = Inr (i, fs1)" and
    s2: "get_or_make_refs be rs tsk used fs1 = Inr (ks, fs')"
    by (auto split: sum.splits prod.splits)
  show ?case
  proof (cases "r \<in> set rs")
    case True
    then show ?thesis using Cons.IH [OF s2] by blast
  next
    case False
    then have r: "r = r0" using Cons.prems(2) by simp
    from gomf_res [OF s1] have "fs1 ! i \<in> set fs1" by simp
    from refs_old [OF s2 this] obtain f' where "f' \<in> set fs'" "same_file (fs1 ! i) f'" by blast
    with gomf_res [OF s1] r show ?thesis
      by (auto simp: same_file_def intro!: bexI [of _ f'])
  qed
qed

lemma make_outputs_length:
  "make_outputs be i ts fs = Inr (outs, fs') \<Longrightarrow> length outs = length ts"
  by (induction ts arbitrary: i fs outs) (auto split: sum.splits prod.splits)

lemma make_inputs_length:
  "make_inputs be i ts fs = Inr (inps, fs') \<Longrightarrow> length inps = length ts"
  by (induction ts arbitrary: i fs inps) (auto split: sum.splits prod.splits)

lemma make_outputs_names:
  "make_outputs be i ts fs = Inr (outs, fs') \<Longrightarrow> distinct (map filename fs)
   \<Longrightarrow> distinct (map filename fs') \<and>
       filename ` set fs' = filename ` set fs \<union> (\<Union>t\<in>set ts. output_locations t)"
proof (induction ts arbitrary: i fs outs)
  case Nil
  then show ?case by simp
next
  case (Cons t ts)
  from Cons.prems(1) obtain out fs1 outs' where
    s1: "get_or_make_refs be (section_refs (outputs t)) (Some i) None fs = Inr (out, fs1)" and
    s2: "make_outputs be (Suc i) ts fs1 = Inr (outs', fs')"
    by (auto simp: get_or_make_files_def split: sum.splits prod.splits)
  from refs_names [OF s1 Cons.prems(2)] have
    d1: "distinct (map filename fs1)" and
    e1: "filename ` set fs1 = filename ` set fs \<union> output_locations t"
    by (simp_all add: output_locations_def)
  from Cons.IH [OF s2 d1] e1 show ?case by auto
qed

lemma make_inputs_names:
  "make_inputs be i ts fs = Inr (inps, fs') \<Longrightarrow> distinct (map filename fs)
   \<Longrightarrow> distinct (map filename fs') \<and>
       filename ` set fs' = filename ` set fs \<union> (\<Union>t\<in>set ts. input_locations t)"
proof (induction ts arbitrary: i fs inps)
  case Nil
  then show ?case by simp
next
  case (Cons t ts)
  from Cons.prems(1) obtain inp fs1 inps' where
    s1: "get_or_make_refs be (section_refs (inputs t)) None (Some i) fs = Inr (inp, fs1)" and
    s2: "make_inputs be (Suc i) ts fs1 = Inr (inps', fs')"
    by (auto simp: get_or_make_files_def split: sum.splits prod.splits)
  from refs_names [OF s1 Cons.prems(2)] have
    d1: "distinct (map filename fs1)" and
    e1: "filename ` set fs1 = filename ` set fs \<union> input_locations t"
    by (simp_all add: input_locations_def)
  from Cons.IH [OF s2 d1] e1 show ?case by auto
qed

lemma make_tasks_parts:
  assumes "make_tasks be cs = Inr a"
  obtains ts outs inps fs1 where
    "make_all_tasks cs = Inr ts"
    "make_outputs be 0 ts [] = Inr (outs, fs1)"
    "make_inputs be 0 ts fs1 = Inr (inps, files a)"
    "tasks a = map (\<lambda>(t, out, inp). set_files t out inp) (zip ts (zip outs inps))"
  using assms by (auto simp: make_tasks_def split: sum.splits prod.splits)

lemma built_tasks_nth:
  assumes "length outs = length ts" "length inps = length ts" "j < length ts"
  shows "map (\<lambda>(t, out, inp). set_files t out inp) (zip ts (zip outs inps)) ! j
           = set_files (ts ! j) (outs ! j) (inps ! j)"
  using assms by simp

lemma set_files_sections:
  "outputs (set_files t out inp) = outputs t" "inputs (set_files t out inp) = inputs t"
  "task_name (set_files t out inp) = task_name t"
  by (simp_all add: set_files_def)

lemma set_files_locations:
  "output_locations (set_files t out inp) = output_locations t"
  "input_locations (set_files t out inp) = input_locations t"
  by (simp_all add: output_locations_def input_locations_def set_files_sections)

lemma built_tasks_locations:
  assumes "make_all_tasks cs = Inr ts"
    "make_outputs be 0 ts [] = Inr (outs, fs1)"
    "make_inputs be 0 ts fs1 = Inr (inps, fs2)"
    "tks = map (\<lambda>(t, out, inp). set_files t out inp) (zip ts (zip outs inps))"
  shows "length tks = length ts \<and>
         (\<forall>j<length ts. output_locations (tks ! j) = output_locations (ts ! j) \<and>
                         input_locations (tks ! j) = input_locations (ts ! j))"
proof -
  have l: "length outs = length ts" "length inps = length ts"
    using assms make_outputs_length make_inputs_length by blast+
  then show ?thesis using assms(4) by (simp add: set_files_locations)
qed

lemma referenced_locations_nth:
  "referenced_locations ts =
     (\<Union>j<length ts. output_locations (ts ! j) \<union> input_locations (ts ! j))"
  unfolding referenced_locations_def
  by (force simp: in_set_conv_nth)

lemma built_files_names:
  assumes "make_tasks be cs = Inr a"
  shows "distinct (map filename (files a)) \<and>
         filename ` set (files a) = referenced_locations (tasks a)"
proof -
  from assms obtain ts outs inps fs1 where p:
    "make_all_tasks cs = Inr ts"
    "make_outputs be 0 ts [] = Inr (outs, fs1)"
    "make_inputs be 0 ts fs1 = Inr (inps, files a)"
    "tasks a = map (\<lambda>(t, out, inp). set_files t out inp) (zip ts (zip outs inps))"
    by (rule make_tasks_parts)
  from make_outputs_names [OF p(2)] have
    d1: "distinct (map filename fs1)" and
    e1: "filename ` set fs1 = (\<Union>t\<in>set ts. output_locations t)" by simp_all
  from make_inputs_names [OF p(3) d1] e1 have
    d2: "distinct (map filename (files a))" and
    e2: "filename ` set (files a) = referenced_locations ts"
    by (auto simp: referenced_locations_def)
  from built_tasks_locations [OF p] have "referenced_locations (tasks a) = referenced_locations ts"
    by (simp add: referenced_locations_nth)
  with e2 d2 show ?thesis by simp
qed

lemma refs_covers:
  assumes "get_or_make_refs be rs tsk used fs = Inr (js, fs')"
  shows "snd ` set rs \<subseteq> filename ` set fs'"
proof
  fix x assume "x \<in> snd ` set rs"
  then obtain r where r: "r \<in> set rs" "x = snd r" by blast
  from refs_res [OF assms r(1)] obtain f' where "f' \<in> set fs'" "filename f' = snd r" by blast
  then show "x \<in> filename ` set fs'" using r(2) by (metis imageI)
qed

lemma refs_keeps_names:
  assumes "get_or_make_refs be rs tsk used fs = Inr (js, fs')"
  shows "filename ` set fs \<subseteq> filename ` set fs'"
proof
  fix x assume "x \<in> filename ` set fs"
  then obtain f where f: "f \<in> set fs" "x = filename f" by blast
  from refs_old [OF assms f(1)] obtain f' where "f' \<in> set fs'" "same_file f f'" by blast
  then show "x \<in> filename ` set fs'" using f(2) by (metis imageI same_file_name)
qed

lemma make_outputs_producer:
  "make_outputs be i ts fs = Inr (outs, fs') \<Longrightarrow> f' \<in> set fs'
   \<Longrightarrow> (\<exists>f\<in>set fs. same_file f f') \<or>
       (filename f' \<notin> filename ` set fs \<and>
        (\<exists>k<length ts. task f' = Some (i + k) \<and> filename f' \<in> output_locations (ts ! k) \<and>
                        (\<forall>k'<k. filename f' \<notin> output_locations (ts ! k'))))"
proof (induction ts arbitrary: i fs outs)
  case Nil
  then show ?case using same_file_refl by auto
next
  case (Cons t ts)
  from Cons.prems(1) obtain out fs1 outs' where
    s1: "get_or_make_refs be (section_refs (outputs t)) (Some i) None fs = Inr (out, fs1)" and
    s2: "make_outputs be (Suc i) ts fs1 = Inr (outs', fs')"
    by (auto simp: get_or_make_files_def split: sum.splits prod.splits)
  have cov: "output_locations t \<subseteq> filename ` set fs1"
    using refs_covers [OF s1] by (simp add: output_locations_def)
  have keep: "filename ` set fs \<subseteq> filename ` set fs1"
    using refs_keeps_names [OF s1] .
  from Cons.IH [OF s2 Cons.prems(2)] show ?case
  proof
    assume "\<exists>f\<in>set fs1. same_file f f'"
    then obtain f1 where f1: "f1 \<in> set fs1" "same_file f1 f'" by blast
    from refs_new [OF s1 f1(1)] show ?thesis
    proof
      assume "\<exists>f\<in>set fs. same_file f f1"
      then show ?thesis using f1(2) same_file_trans by blast
    next
      assume n: "filename f1 \<notin> filename ` set fs \<and>
                 filename f1 \<in> snd ` set (section_refs (outputs t)) \<and> task f1 = Some i"
      have "filename f' = filename f1" "task f' = task f1"
        using f1(2) by (simp_all add: same_file_name same_file_task)
      with n have "filename f' \<notin> filename ` set fs \<and>
                   task f' = Some (i + 0) \<and> filename f' \<in> output_locations ((t # ts) ! 0) \<and>
                   (\<forall>k'<0::nat. filename f' \<notin> output_locations ((t # ts) ! k'))"
        by (simp add: output_locations_def)
      then show ?thesis by blast
    qed
  next
    assume "filename f' \<notin> filename ` set fs1 \<and>
        (\<exists>k<length ts. task f' = Some (Suc i + k) \<and> filename f' \<in> output_locations (ts ! k) \<and>
                        (\<forall>k'<k. filename f' \<notin> output_locations (ts ! k')))"
    then obtain k where k: "filename f' \<notin> filename ` set fs1" "k < length ts"
      "task f' = Some (Suc i + k)" "filename f' \<in> output_locations (ts ! k)"
      "\<forall>k'<k. filename f' \<notin> output_locations (ts ! k')" by blast
    have a: "filename f' \<notin> filename ` set fs" using k(1) keep by blast
    have b: "filename f' \<notin> output_locations t" using k(1) cov by blast
    have c: "\<forall>k'<Suc k. filename f' \<notin> output_locations ((t # ts) ! k')"
    proof (intro allI impI)
      fix k' assume "k' < Suc k"
      then show "filename f' \<notin> output_locations ((t # ts) ! k')"
        using b k(5) by (cases k') auto
    qed
    have "Suc k < length (t # ts) \<and> task f' = Some (i + Suc k) \<and>
          filename f' \<in> output_locations ((t # ts) ! Suc k)"
      using k by simp
    with a c show ?thesis by blast
  qed
qed

lemma make_inputs_old:
  "make_inputs be i ts fs = Inr (inps, fs') \<Longrightarrow> f \<in> set fs
   \<Longrightarrow> \<exists>f'\<in>set fs'. same_file f f'"
proof (induction ts arbitrary: i fs inps f)
  case Nil
  then show ?case using same_file_refl by auto
next
  case (Cons t ts)
  from Cons.prems(1) obtain inp fs1 inps' where
    s1: "get_or_make_refs be (section_refs (inputs t)) None (Some i) fs = Inr (inp, fs1)" and
    s2: "make_inputs be (Suc i) ts fs1 = Inr (inps', fs')"
    by (auto simp: get_or_make_files_def split: sum.splits prod.splits)
  from refs_old [OF s1 Cons.prems(2)] obtain f1 where "f1 \<in> set fs1" "same_file f f1" by blast
  with Cons.IH [OF s2] show ?case using same_file_trans by blast
qed

lemma make_inputs_consumer:
  "make_inputs be i ts fs = Inr (inps, fs') \<Longrightarrow> k < length ts
   \<Longrightarrow> L \<in> input_locations (ts ! k)
   \<Longrightarrow> \<exists>f'\<in>set fs'. filename f' = L \<and> i + k \<in> set (used_by_tasks f')"
proof (induction ts arbitrary: i fs inps k)
  case Nil
  then show ?case by simp
next
  case (Cons t ts)
  from Cons.prems(1) obtain inp fs1 inps' where
    s1: "get_or_make_refs be (section_refs (inputs t)) None (Some i) fs = Inr (inp, fs1)" and
    s2: "make_inputs be (Suc i) ts fs1 = Inr (inps', fs')"
    by (auto simp: get_or_make_files_def split: sum.splits prod.splits)
  show ?case
  proof (cases k)
    case 0
    with Cons.prems(3) obtain r where r: "r \<in> set (section_refs (inputs t))" "snd r = L"
      by (auto simp: input_locations_def)
    from refs_res [OF s1 r(1)] obtain f1 where
      f1: "f1 \<in> set fs1" "filename f1 = L" "i \<in> set (used_by_tasks f1)"
      using r(2) by auto
    from make_inputs_old [OF s2 f1(1)] obtain f' where
      "f' \<in> set fs'" "same_file f1 f'" by blast
    with f1 0 show ?thesis by (auto simp: same_file_def)
  next
    case (Suc k')
    with Cons.prems have "k' < length ts" "L \<in> input_locations (ts ! k')" by simp_all
    from Cons.IH [OF s2 this] Suc show ?thesis by simp
  qed
qed

lemma distinct_filename_unique:
  "distinct (map filename fs) \<Longrightarrow> f \<in> set fs \<Longrightarrow> g \<in> set fs
   \<Longrightarrow> filename f = filename g \<Longrightarrow> f = g"
  by (meson distinct_map inj_on_eq_iff)


lemma demo_build: "make_tasks demo_backend demo_calls = Inr demo_graph"
  by (simp add: make_tasks_def demo_calls_def demo_backend_def demo_graph_def
      make_task_def get_or_make_files_def section_refs_def get_or_make_file_def
      GSFile_def touch_def set_files_def)

lemma shard_build: "make_tasks demo_backend shard_calls = Inr shard_graph"
  by (simp add: make_tasks_def shard_calls_def demo_backend_def shard_graph_def
      make_task_def get_or_make_files_def section_refs_def get_or_make_file_def
      GSFile_def touch_def set_files_def)



text \<open>
  C2, as the code has it. When a location is in the output tree of task \<open>iA\<close> and in the
  input tree of task \<open>iB\<close>, the store holds one file of that name; \<open>iB\<close> is among its
  consumers; and its producer is the first task, in the order of \<open>tasks\<close>, whose output
  tree mentions the location (so it is \<open>iA\<close> when no earlier task writes there).
\<close>


theorem shared_location_one_file:
  assumes "make_tasks be cs = Inr a"
    and "iA < length (tasks a)" and "L \<in> output_locations (tasks a ! iA)"
    and "iB < length (tasks a)" and "L \<in> input_locations (tasks a ! iB)"
  shows "\<exists>i<length (files a).
           (\<forall>j<length (files a). (filename (files a ! j) = L) = (j = i)) \<and>
           task (files a ! i) =
             Some (LEAST j. j < length (tasks a) \<and> L \<in> output_locations (tasks a ! j)) \<and>
           iB \<in> set (used_by_tasks (files a ! i))"
proof -
  from assms(1) obtain ts outs inps fs1 where p:
    "make_all_tasks cs = Inr ts"
    "make_outputs be 0 ts [] = Inr (outs, fs1)"
    "make_inputs be 0 ts fs1 = Inr (inps, files a)"
    "tasks a = map (\<lambda>(t, out, inp). set_files t out inp) (zip ts (zip outs inps))"
    by (rule make_tasks_parts)
  from built_tasks_locations [OF p] have
    len: "length (tasks a) = length ts" and
    loc: "\<And>j. j < length ts \<Longrightarrow> output_locations (tasks a ! j) = output_locations (ts ! j)"
         "\<And>j. j < length ts \<Longrightarrow> input_locations (tasks a ! j) = input_locations (ts ! j)"
    by simp_all
  from built_files_names [OF assms(1)] have d: "distinct (map filename (files a))" by simp
  \<comment> \<open>the consumer\<close>
  from assms(4,5) len loc have "iB < length ts" "L \<in> input_locations (ts ! iB)" by simp_all
  from make_inputs_consumer [OF p(3) this] obtain f where
    f: "f \<in> set (files a)" "filename f = L" "iB \<in> set (used_by_tasks f)" by auto
  then obtain i where i: "i < length (files a)" "files a ! i = f"
    by (auto simp: in_set_conv_nth)
  have uniq: "\<forall>j<length (files a). (filename (files a ! j) = L) = (j = i)"
  proof (intro allI impI)
    fix j assume j: "j < length (files a)"
    have "map filename (files a) ! j = map filename (files a) ! i \<longleftrightarrow> j = i"
      using nth_eq_iff_index_eq [OF d, of j i] i(1) j by simp
    then show "(filename (files a ! j) = L) = (j = i)" using i j f(2) by simp
  qed
  \<comment> \<open>the producer\<close>
  from make_outputs_names [OF p(2)] have
    "filename ` set fs1 = (\<Union>t\<in>set ts. output_locations t)" by simp
  moreover from assms(2,3) len loc have "L \<in> output_locations (ts ! iA)" "ts ! iA \<in> set ts"
    by simp_all
  ultimately have "L \<in> filename ` set fs1" by blast
  then obtain f1 where f1: "f1 \<in> set fs1" "filename f1 = L" by blast
  from make_outputs_producer [OF p(2) f1(1)] obtain k where
    k: "k < length ts" "task f1 = Some k" "L \<in> output_locations (ts ! k)"
       "\<forall>k'<k. L \<notin> output_locations (ts ! k')"
    using f1(2) by auto
  from make_inputs_old [OF p(3) f1(1)] obtain f2 where
    f2: "f2 \<in> set (files a)" "same_file f1 f2" by blast
  then have "filename f2 = filename f" using f1(2) f(2) by (simp add: same_file_name)
  with d f2(1) f(1) have "f2 = f" using distinct_filename_unique by blast
  then have tf: "task f = Some k" using f2(2) k(2) by (simp add: same_file_task)
  have "(LEAST j. j < length (tasks a) \<and> L \<in> output_locations (tasks a ! j)) = k"
  proof (rule Least_equality)
    show "k < length (tasks a) \<and> L \<in> output_locations (tasks a ! k)"
      using k(1,3) len loc(1) by auto
  next
    fix y assume y: "y < length (tasks a) \<and> L \<in> output_locations (tasks a ! y)"
    then have "y < length ts" using len by simp
    then have "L \<in> output_locations (ts ! y)" using y loc(1) by blast
    with k(4) show "k \<le> y" by (meson not_le)
  qed
  with tf i f(3) uniq show ?thesis by auto
qed


theorem shared_location_one_file_witness:
  "make_tasks demo_backend demo_calls = Inr demo_graph \<and>
   (0::nat) < length (tasks demo_graph) \<and>
   ''gs://b/x.bam'' \<in> output_locations (tasks demo_graph ! 0) \<and>
   (1::nat) < length (tasks demo_graph) \<and>
   ''gs://b/x.bam'' \<in> input_locations (tasks demo_graph ! 1) \<and>
   (\<exists>i<length (files demo_graph).
      (\<forall>j<length (files demo_graph). (filename (files demo_graph ! j) = ''gs://b/x.bam'') = (j = i)) \<and>
      task (files demo_graph ! i) =
        Some (LEAST j. j < length (tasks demo_graph) \<and>
                       ''gs://b/x.bam'' \<in> output_locations (tasks demo_graph ! j)) \<and>
      1 \<in> set (used_by_tasks (files demo_graph ! i)))"
proof -
  have a: "(0::nat) < length (tasks demo_graph)" "(1::nat) < length (tasks demo_graph)"
    by (simp_all add: demo_graph_def)
  have b: "''gs://b/x.bam'' \<in> output_locations (tasks demo_graph ! 0)"
    "''gs://b/x.bam'' \<in> input_locations (tasks demo_graph ! 1)"
    by (simp_all add: demo_graph_def output_locations_def input_locations_def section_refs_def)
  from shared_location_one_file [OF demo_build a(1) b(1) a(2) b(2)] a b demo_build
  show ?thesis by blast
qed

text \<open>
  C2 as stated fails when two tasks report the same output location: the second shard of
  \<open>align\<close> (task 1) writes \<open>x.bam\<close> and \<open>dedup\<close> (task 2) reads it, yet the one file
  of that name keeps task 0 as its producer.
\<close>

theorem shared_location_producer_counterexample:
  "make_tasks demo_backend shard_calls = Inr shard_graph \<and>
   ''gs://b/x.bam'' \<in> output_locations (tasks shard_graph ! 1) \<and>
   ''gs://b/x.bam'' \<in> input_locations (tasks shard_graph ! 2) \<and>
   length (files shard_graph) = 1 \<and>
   filename (files shard_graph ! 0) = ''gs://b/x.bam'' \<and>
   task (files shard_graph ! 0) = Some 0 \<and>
   task (files shard_graph ! 0) \<noteq> Some 1"
proof -
  have "''gs://b/x.bam'' \<in> output_locations (tasks shard_graph ! 1) \<and>
        ''gs://b/x.bam'' \<in> input_locations (tasks shard_graph ! 2) \<and>
        length (files shard_graph) = 1 \<and>
        filename (files shard_graph ! 0) = ''gs://b/x.bam'' \<and>
        task (files shard_graph ! 0) = Some 0 \<and>
        task (files shard_graph ! 0) \<noteq> Some 1"
    by (simp add: shard_graph_def output_locations_def input_locations_def section_refs_def)
  with shard_build show ?thesis by blast
qed

subsection \<open>Indices of a built graph\<close>

lemma gomf_nth:
  assumes "get_or_make_file be key fn tsk used fs = Inr (i, fs')"
  shows "length fs \<le> length fs' \<and> (\<forall>j<length fs. filename (fs' ! j) = filename (fs ! j))"
proof -
  note n = gomf_names [OF assms]
  have l: "length fs' = length (map filename fs')" by simp
  have len: "length fs \<le> length fs'"
    unfolding l n by simp
  have "filename (fs' ! j) = filename (fs ! j)" if j: "j < length fs" for j
  proof -
    have "filename (fs' ! j) = map filename fs' ! j" using j len by simp
    also have "\<dots> = map filename fs ! j" unfolding n using j by (simp add: nth_append)
    finally show ?thesis using j by simp
  qed
  with len show ?thesis by blast
qed

lemma refs_nth:
  "get_or_make_refs be rs tsk used fs = Inr (js, fs') \<Longrightarrow>
   length fs \<le> length fs' \<and> (\<forall>j<length fs. filename (fs' ! j) = filename (fs ! j)) \<and>
   (\<forall>j\<in>set js. j < length fs') \<and> map (\<lambda>j. filename (fs' ! j)) js = map snd rs"
proof (induction rs arbitrary: fs js)
  case Nil
  then show ?case by simp
next
  case (Cons r rs)
  from Cons.prems obtain i fs1 ks where
    s1: "get_or_make_file be (fst r) (snd r) tsk used fs = Inr (i, fs1)" and
    s2: "get_or_make_refs be rs tsk used fs1 = Inr (ks, fs')" and
    js: "js = i # ks"
    by (auto split: sum.splits prod.splits)
  note a = gomf_nth [OF s1] and b = gomf_res [OF s1] and c = Cons.IH [OF s2]
  from a c have len: "length fs \<le> length fs'" by simp
  have st: "\<forall>j<length fs. filename (fs' ! j) = filename (fs ! j)"
    using a c by (metis less_le_trans)
  have i: "i < length fs'" "filename (fs' ! i) = snd r"
    using b c by (metis less_le_trans)+
  from i c js len st show ?case by simp
qed

lemma make_outputs_nth:
  "make_outputs be i ts fs = Inr (outs, fs') \<Longrightarrow>
   length fs \<le> length fs' \<and> (\<forall>j<length fs. filename (fs' ! j) = filename (fs ! j)) \<and>
   (\<forall>k<length ts. (\<forall>j\<in>set (outs ! k). j < length fs') \<and>
        map (\<lambda>j. filename (fs' ! j)) (outs ! k) = map snd (section_refs (outputs (ts ! k))))"
proof (induction ts arbitrary: i fs outs)
  case Nil
  then show ?case by simp
next
  case (Cons t ts)
  from Cons.prems obtain out fs1 outs' where
    s1: "get_or_make_refs be (section_refs (outputs t)) (Some i) None fs = Inr (out, fs1)" and
    s2: "make_outputs be (Suc i) ts fs1 = Inr (outs', fs')" and
    o: "outs = out # outs'"
    by (auto simp: get_or_make_files_def split: sum.splits prod.splits)
  note a = refs_nth [OF s1] and c = Cons.IH [OF s2]
  from a c have len: "length fs \<le> length fs'" by simp
  have st: "\<forall>j<length fs. filename (fs' ! j) = filename (fs ! j)"
    using a c by (metis less_le_trans)
  have h0: "(\<forall>j\<in>set out. j < length fs') \<and>
        map (\<lambda>j. filename (fs' ! j)) out = map snd (section_refs (outputs t))"
  proof -
    have "\<forall>j\<in>set out. j < length fs1" using a by blast
    moreover have "\<forall>j<length fs1. filename (fs' ! j) = filename (fs1 ! j)"
      "length fs1 \<le> length fs'" using c by blast+
    moreover have "map (\<lambda>j. filename (fs1 ! j)) out = map snd (section_refs (outputs t))"
      using a by blast
    ultimately show ?thesis
      by (metis (no_types, lifting) less_le_trans map_eq_conv)
  qed
  have "(\<forall>j\<in>set (outs ! k). j < length fs') \<and>
        map (\<lambda>j. filename (fs' ! j)) (outs ! k) = map snd (section_refs (outputs ((t # ts) ! k)))"
    if "k < length (t # ts)" for k
    using that h0 c o by (cases k) auto
  with len st show ?case by blast
qed

lemma make_inputs_nth:
  "make_inputs be i ts fs = Inr (inps, fs') \<Longrightarrow>
   length fs \<le> length fs' \<and> (\<forall>j<length fs. filename (fs' ! j) = filename (fs ! j)) \<and>
   (\<forall>k<length ts. (\<forall>j\<in>set (inps ! k). j < length fs') \<and>
        map (\<lambda>j. filename (fs' ! j)) (inps ! k) = map snd (section_refs (inputs (ts ! k))))"
proof (induction ts arbitrary: i fs inps)
  case Nil
  then show ?case by simp
next
  case (Cons t ts)
  from Cons.prems obtain inp fs1 inps' where
    s1: "get_or_make_refs be (section_refs (inputs t)) None (Some i) fs = Inr (inp, fs1)" and
    s2: "make_inputs be (Suc i) ts fs1 = Inr (inps', fs')" and
    o: "inps = inp # inps'"
    by (auto simp: get_or_make_files_def split: sum.splits prod.splits)
  note a = refs_nth [OF s1] and c = Cons.IH [OF s2]
  from a c have len: "length fs \<le> length fs'" by simp
  have st: "\<forall>j<length fs. filename (fs' ! j) = filename (fs ! j)"
    using a c by (metis less_le_trans)
  have h0: "(\<forall>j\<in>set inp. j < length fs') \<and>
        map (\<lambda>j. filename (fs' ! j)) inp = map snd (section_refs (inputs t))"
  proof -
    have "\<forall>j\<in>set inp. j < length fs1" using a by blast
    moreover have "\<forall>j<length fs1. filename (fs' ! j) = filename (fs1 ! j)"
      "length fs1 \<le> length fs'" using c by blast+
    moreover have "map (\<lambda>j. filename (fs1 ! j)) inp = map snd (section_refs (inputs t))"
      using a by blast
    ultimately show ?thesis
      by (metis (no_types, lifting) less_le_trans map_eq_conv)
  qed
  have "(\<forall>j\<in>set (inps ! k). j < length fs') \<and>
        map (\<lambda>j. filename (fs' ! j)) (inps ! k) = map snd (section_refs (inputs ((t # ts) ! k)))"
    if "k < length (t # ts)" for k
    using that h0 c o by (cases k) auto
  with len st show ?case by blast
qed


text \<open>
  The tasks of a built graph hold indices into its file store where the source holds
  references to \<^verbatim>\<open>GSFile\<close> objects. Whenever \<^verbatim>\<open>make_tasks\<close> returns, every index in a
  task's \<^verbatim>\<open>output_files\<close> and \<^verbatim>\<open>input_files\<close> is within the store, and the files
  there carry, in order, the locations \<^verbatim>\<open>extract_files\<close> finds in the task's output and
  input trees: the reads \<open>files a ! i\<close> of the searches below are reads of objects that
  exist.
\<close>

lemma built_graph_indices:
  assumes "make_tasks be cs = Inr a" and "k < length (tasks a)"
  shows "(\<forall>j\<in>set (output_files (tasks a ! k)). j < length (files a)) \<and>
         (\<forall>j\<in>set (input_files (tasks a ! k)). j < length (files a)) \<and>
         map (\<lambda>j. filename (files a ! j)) (output_files (tasks a ! k))
           = map snd (section_refs (outputs (tasks a ! k))) \<and>
         map (\<lambda>j. filename (files a ! j)) (input_files (tasks a ! k))
           = map snd (section_refs (inputs (tasks a ! k)))"
proof -
  from assms(1) obtain ts outs inps fs1 where
    p: "make_all_tasks cs = Inr ts"
       "make_outputs be 0 ts [] = Inr (outs, fs1)"
       "make_inputs be 0 ts fs1 = Inr (inps, files a)"
       "tasks a = map (\<lambda>(t, out, inp). set_files t out inp) (zip ts (zip outs inps))"
    by (rule make_tasks_parts)
  note lo = make_outputs_length [OF p(2)] and li = make_inputs_length [OF p(3)]
  from assms(2) p(4) lo li have k: "k < length ts" by simp
  have t: "tasks a ! k = set_files (ts ! k) (outs ! k) (inps ! k)"
    unfolding p(4) using lo li k by (rule built_tasks_nth)
  have of1: "output_files (tasks a ! k) = outs ! k" "input_files (tasks a ! k) = inps ! k"
    unfolding t by (simp_all add: set_files_def)
  have sec: "outputs (tasks a ! k) = outputs (ts ! k)" "inputs (tasks a ! k) = inputs (ts ! k)"
    unfolding t by (simp_all add: set_files_sections)
  note o = make_outputs_nth [OF p(2)] and i = make_inputs_nth [OF p(3)]
  from o k have o1: "\<forall>j\<in>set (outs ! k). j < length fs1"
    and o2: "map (\<lambda>j. filename (fs1 ! j)) (outs ! k) = map snd (section_refs (outputs (ts ! k)))"
    by blast+
  from i have st: "\<forall>j<length fs1. filename (files a ! j) = filename (fs1 ! j)"
    and len: "length fs1 \<le> length (files a)" by blast+
  from i k have i1: "\<forall>j\<in>set (inps ! k). j < length (files a)"
    and i2: "map (\<lambda>j. filename (files a ! j)) (inps ! k) = map snd (section_refs (inputs (ts ! k)))"
    by blast+
  have o1': "\<forall>j\<in>set (outs ! k). j < length (files a)" using o1 len by (metis less_le_trans)
  have "map (\<lambda>j. filename (files a ! j)) (outs ! k) = map (\<lambda>j. filename (fs1 ! j)) (outs ! k)"
    using o1 st by simp
  with o2 have o2': "map (\<lambda>j. filename (files a ! j)) (outs ! k) = map snd (section_refs (outputs (ts ! k)))"
    by simp
  show ?thesis unfolding of1 sec using o1' i1 o2' i2 by blast
qed

lemma demo_graph_indices:
  "make_tasks demo_backend demo_calls = Inr demo_graph \<and>
   (1::nat) < length (tasks demo_graph) \<and>
   (\<forall>j\<in>set (output_files (tasks demo_graph ! 1)). j < length (files demo_graph)) \<and>
   (\<forall>j\<in>set (input_files (tasks demo_graph ! 1)). j < length (files demo_graph)) \<and>
   map (\<lambda>j. filename (files demo_graph ! j)) (output_files (tasks demo_graph ! 1))
     = map snd (section_refs (outputs (tasks demo_graph ! 1))) \<and>
   map (\<lambda>j. filename (files demo_graph ! j)) (input_files (tasks demo_graph ! 1))
     = map snd (section_refs (inputs (tasks demo_graph ! 1))) \<and>
   map (\<lambda>j. filename (files demo_graph ! j)) (input_files (tasks demo_graph ! 1))
     = [''gs://b/x.bam'']"
proof -
  have l: "(1::nat) < length (tasks demo_graph)" by (simp add: demo_graph_def)
  have v: "map (\<lambda>j. filename (files demo_graph ! j)) (input_files (tasks demo_graph ! 1))
     = [''gs://b/x.bam'']" by (simp add: demo_graph_def)
  from built_graph_indices [OF demo_build l] demo_build l v show ?thesis by blast
qed


lemma set_py_set: "set (py_set xs) = set xs"
  by (simp add: py_set_def)

lemma distinct_py_set: "distinct (py_set xs)"
  by (simp add: py_set_def)

lemma gen_chain_yields:
  "y \<in> set (fst (gen_chain g xs)) \<Longrightarrow> \<exists>x\<in>set xs. y \<in> set (fst (g x))"
proof (induction xs arbitrary: y)
  case Nil
  then show ?case by simp
next
  case (Cons x xs)
  then show ?case
    by (cases "g x"; cases "snd (g x)"; cases "gen_chain g xs") (auto split: prod.splits)
qed

lemma gen_chain_done:
  "snd (gen_chain g xs) = None \<Longrightarrow> x \<in> set xs
   \<Longrightarrow> snd (g x) = None \<and> set (fst (g x)) \<subseteq> set (fst (gen_chain g xs))"
proof (induction xs)
  case Nil
  then show ?case by simp
next
  case (Cons x' xs)
  then show ?case
    by (cases "g x'"; cases "snd (g x')"; cases "gen_chain g xs") (auto split: prod.splits)
qed

lemma gen_chain_error:
  "x \<in> set xs \<Longrightarrow> snd (g x) \<noteq> None \<Longrightarrow> snd (gen_chain g xs) \<noteq> None"
  using gen_chain_done by fastforce

lemma with_key_iff: "f \<in> set (with_key a key fs) \<longleftrightarrow> f \<in> set fs \<and> key \<in> set (filekeys (files a ! f))"
  by (auto simp: with_key_def)

lemma search_up_sound:
  "f \<in> set (fst (search_up d a t name key inp))
   \<Longrightarrow> key \<in> set (filekeys (files a ! f)) \<and>
       (\<exists>t'. upstream a t t' \<and> task_name (tasks a ! t') = name \<and> f \<in> set (offered a inp t'))"
proof (induction d arbitrary: t)
  case 0
  then show ?case by simp
next
  case (Suc d)
  let ?g = "\<lambda>task_item. case task_item of Some t' \<Rightarrow> search_up d a t' name key inp
                                          | None \<Rightarrow> ([], None)"
  let ?ps = "py_set (map (\<lambda>x. task (files a ! x)) (input_files (tasks a ! t)))"
  let ?own = "if name = task_name (tasks a ! t) then with_key a key (offered a inp t) else []"
  from Suc.prems have "f \<in> set ?own \<or> f \<in> set (fst (gen_chain ?g ?ps))"
    by (simp add: gen_then_def)
  then show ?case
  proof
    assume "f \<in> set ?own"
    then have "name = task_name (tasks a ! t)" "f \<in> set (offered a inp t)"
      "key \<in> set (filekeys (files a ! f))"
      by (auto simp: with_key_iff split: if_splits)
    then show ?thesis using up_self by blast
  next
    assume rec: "f \<in> set (fst (gen_chain ?g ?ps))"
    from gen_chain_yields [OF rec] obtain p where p: "p \<in> set ?ps" "f \<in> set (fst (?g p))" by blast
    from p(2) obtain t' where t': "p = Some t'" by (cases p) auto
    from p(1) t' obtain x where x: "x \<in> set (input_files (tasks a ! t))" "task (files a ! x) = Some t'"
      by (auto simp: set_py_set)
    have "upstream a t t'" using up_step [OF up_self x] .
    from Suc.IH [of t'] p(2) t' obtain t'' where
      k: "key \<in> set (filekeys (files a ! f))" and
      u: "upstream a t' t''" "task_name (tasks a ! t'') = name" "f \<in> set (offered a inp t'')"
      by auto
    have "upstream a t t''" using u(1) \<open>upstream a t t'\<close>
      by (induction rule: upstream.induct) (auto intro: up_step)
    with k u show ?thesis by blast
  qed
qed

lemma upstream_trans: "upstream a t1 t2 \<Longrightarrow> upstream a t t1 \<Longrightarrow> upstream a t t2"
  by (induction rule: upstream.induct) (auto intro: up_step)

lemma downstream_trans: "downstream a t1 t2 \<Longrightarrow> downstream a t t1 \<Longrightarrow> downstream a t t2"
  by (induction rule: downstream.induct) (auto intro: down_step)

lemma upstream_first:
  "upstream a t t' \<Longrightarrow>
   t' = t \<or> (\<exists>f t1. f \<in> set (input_files (tasks a ! t)) \<and> task (files a ! f) = Some t1 \<and>
                     upstream a t1 t')"
proof (induction rule: upstream.induct)
  case up_self
  then show ?case by simp
next
  case (up_step t1 f t2)
  from up_step.IH show ?case
  proof
    assume "t1 = t"
    with up_step.hyps show ?thesis using up_self by blast
  next
    assume "\<exists>g t0. g \<in> set (input_files (tasks a ! t)) \<and> task (files a ! g) = Some t0 \<and>
                    upstream a t0 t1"
    then obtain g t0 where g: "g \<in> set (input_files (tasks a ! t))"
      "task (files a ! g) = Some t0" "upstream a t0 t1" by blast
    from up_step.hyps(2,3) g(3) have "upstream a t0 t2" using upstream.up_step by blast
    with g show ?thesis by blast
  qed
qed

lemma downstream_first:
  "downstream a t t' \<Longrightarrow>
   t' = t \<or> (\<exists>f t1. f \<in> set (output_files (tasks a ! t)) \<and>
                     t1 \<in> set (used_by_tasks (files a ! f)) \<and> downstream a t1 t')"
proof (induction rule: downstream.induct)
  case down_self
  then show ?case by simp
next
  case (down_step t1 f t2)
  from down_step.IH show ?case
  proof
    assume "t1 = t"
    with down_step.hyps show ?thesis using down_self by blast
  next
    assume "\<exists>g t0. g \<in> set (output_files (tasks a ! t)) \<and>
                    t0 \<in> set (used_by_tasks (files a ! g)) \<and> downstream a t0 t1"
    then obtain g t0 where g: "g \<in> set (output_files (tasks a ! t))"
      "t0 \<in> set (used_by_tasks (files a ! g))" "downstream a t0 t1" by blast
    from down_step.hyps(2,3) g(3) have "downstream a t0 t2" using downstream.down_step by blast
    with g show ?thesis by blast
  qed
qed

lemma snd_gen_then: "snd (gen_then ys g) = snd g"
  by (simp add: gen_then_def)

lemma fst_gen_then: "set (fst (gen_then ys g)) = set ys \<union> set (fst g)"
  by (simp add: gen_then_def)

lemma search_up_complete:
  "snd (search_up d a t name key inp) = None \<Longrightarrow> upstream a t t'
   \<Longrightarrow> task_name (tasks a ! t') = name \<Longrightarrow> f \<in> set (offered a inp t')
   \<Longrightarrow> key \<in> set (filekeys (files a ! f))
   \<Longrightarrow> f \<in> set (fst (search_up d a t name key inp))"
proof (induction d arbitrary: t)
  case 0
  then show ?case by simp
next
  case (Suc d)
  let ?g = "\<lambda>task_item. case task_item of Some t' \<Rightarrow> search_up d a t' name key inp
                                          | None \<Rightarrow> ([], None)"
  let ?ps = "py_set (map (\<lambda>x. task (files a ! x)) (input_files (tasks a ! t)))"
  from Suc.prems(1) have ok: "snd (gen_chain ?g ?ps) = None" by (simp add: snd_gen_then)
  from upstream_first [OF Suc.prems(2)] show ?case
  proof
    assume "t' = t"
    with Suc.prems(3,4,5) show ?thesis by (simp add: fst_gen_then with_key_iff)
  next
    assume "\<exists>g t1. g \<in> set (input_files (tasks a ! t)) \<and> task (files a ! g) = Some t1 \<and>
                    upstream a t1 t'"
    then obtain g t1 where g: "g \<in> set (input_files (tasks a ! t))"
      "task (files a ! g) = Some t1" "upstream a t1 t'" by blast
    then have "Some t1 \<in> set ?ps" by (force simp: set_py_set)
    from gen_chain_done [OF ok this] have
      r: "snd (search_up d a t1 name key inp) = None"
         "set (fst (search_up d a t1 name key inp)) \<subseteq> set (fst (gen_chain ?g ?ps))"
      by simp_all
    from Suc.IH [OF r(1) g(3) Suc.prems(3,4,5)] r(2) show ?thesis
      by (auto simp: fst_gen_then)
  qed
qed

lemma search_down_sound:
  "f \<in> set (fst (search_down d a t name key))
   \<Longrightarrow> key \<in> set (filekeys (files a ! f)) \<and>
       (\<exists>t'. downstream a t t' \<and> task_name (tasks a ! t') = name \<and>
             f \<in> set (output_files (tasks a ! t')))"
proof (induction d arbitrary: t)
  case 0
  then show ?case by simp
next
  case (Suc d)
  let ?own = "if name = task_name (tasks a ! t)
              then with_key a key (output_files (tasks a ! t)) else []"
  let ?us = "map (\<lambda>x. used_by_tasks (files a ! x)) (output_files (tasks a ! t))"
  let ?rest = "case ?us of
                 [] \<Rightarrow> ([], Some (Raise TypeError ''reduce() of empty sequence with no initial value''))
               | u # us \<Rightarrow> gen_chain (\<lambda>task_item. search_down d a task_item name key)
                            (py_set (foldl (@) u us))"
  from Suc.prems have "f \<in> set ?own \<or> f \<in> set (fst ?rest)"
    by (simp add: fst_gen_then)
  then show ?case
  proof
    assume "f \<in> set ?own"
    then have "name = task_name (tasks a ! t)" "f \<in> set (output_files (tasks a ! t))"
      "key \<in> set (filekeys (files a ! f))"
      by (auto simp: with_key_iff split: if_splits)
    then show ?thesis using down_self by blast
  next
    assume rec: "f \<in> set (fst ?rest)"
    then obtain u us where u: "?us = u # us" by (cases ?us) auto
    with rec have "f \<in> set (fst (gen_chain (\<lambda>task_item. search_down d a task_item name key)
                                  (py_set (foldl (@) u us))))" by simp
    from gen_chain_yields [OF this] obtain t1 where
      t1: "t1 \<in> set (foldl (@) u us)" "f \<in> set (fst (search_down d a t1 name key))"
      by (auto simp: set_py_set)
    have "set (foldl (@) u us) = set u \<union> \<Union> (set ` set us)"
      by (induction us arbitrary: u) auto
    also have "\<dots> = \<Union> (set ` set ?us)" using u by simp
    finally obtain x where x: "x \<in> set (output_files (tasks a ! t))"
      "t1 \<in> set (used_by_tasks (files a ! x))" using t1(1) by auto
    have d1: "downstream a t t1" using down_step [OF down_self x] .
    from Suc.IH [OF t1(2)] obtain t' where
      k: "key \<in> set (filekeys (files a ! f))" and
      v: "downstream a t1 t'" "task_name (tasks a ! t') = name"
         "f \<in> set (output_files (tasks a ! t'))" by blast
    from downstream_trans [OF v(1) d1] k v show ?thesis by blast
  qed
qed

lemma search_down_no_outputs:
  "output_files (tasks a ! t) = []
   \<Longrightarrow> search_down (Suc d) a t name key =
         ([], Some (Raise TypeError ''reduce() of empty sequence with no initial value''))"
  by (simp add: gen_then_def with_key_def)

lemma search_down_ok_outputs:
  "snd (search_down d a t name key) = None \<Longrightarrow> downstream a t t'
   \<Longrightarrow> output_files (tasks a ! t') \<noteq> []"
proof (induction d arbitrary: t)
  case 0
  then show ?case by simp
next
  case (Suc d)
  let ?us = "map (\<lambda>x. used_by_tasks (files a ! x)) (output_files (tasks a ! t))"
  have ne: "output_files (tasks a ! t) \<noteq> []"
  proof
    assume "output_files (tasks a ! t) = []"
    from search_down_no_outputs [OF this] Suc.prems(1) show False by simp
  qed
  then obtain u us where u: "?us = u # us" by (cases "output_files (tasks a ! t)") auto
  with Suc.prems(1) have ok:
    "snd (gen_chain (\<lambda>task_item. search_down d a task_item name key)
            (py_set (foldl (@) u us))) = None"
    by (simp add: snd_gen_then)
  have fl: "set (foldl (@) u us) = \<Union> (set ` set ?us)"
  proof -
    have "set (foldl (@) u us) = set u \<union> \<Union> (set ` set us)"
      by (induction us arbitrary: u) auto
    then show ?thesis using u by simp
  qed
  from downstream_first [OF Suc.prems(2)] show ?case
  proof
    assume "t' = t"
    with ne show ?thesis by simp
  next
    assume "\<exists>f t1. f \<in> set (output_files (tasks a ! t)) \<and>
                    t1 \<in> set (used_by_tasks (files a ! f)) \<and> downstream a t1 t'"
    then obtain f t1 where f: "f \<in> set (output_files (tasks a ! t))"
      "t1 \<in> set (used_by_tasks (files a ! f))" "downstream a t1 t'" by blast
    then have "t1 \<in> set (py_set (foldl (@) u us))" using fl by (auto simp: set_py_set)
    from gen_chain_done [OF ok this] have "snd (search_down d a t1 name key) = None" by simp
    from Suc.IH [OF this f(3)] show ?thesis .
  qed
qed

text \<open>
  C8. Every file that \<open>search_up\<close> yields (with or without the \<open>inputs\<close> flag) and every
  file that \<open>search_down\<close> yields carries the requested key, also when the search ends in
  an exception. What \<open>search_up\<close> yields are output files (input files when the flag is
  set) of tasks of the requested name that are reached from the starting task through the
  producers of input files; a file without a producer leads nowhere. When the search ends
  normally it has yielded every such file.
\<close>

theorem search_yields_only_role_key:
  "(\<forall>f\<in>set (fst (search_up d a t name key inp)).
      key \<in> set (filekeys (files a ! f)) \<and>
      (\<exists>t'. upstream a t t' \<and> task_name (tasks a ! t') = name \<and> f \<in> set (offered a inp t'))) \<and>
   (\<forall>f\<in>set (fst (search_down d2 a t2 name2 key2)).
      key2 \<in> set (filekeys (files a ! f)) \<and>
      (\<exists>t'. downstream a t2 t' \<and> task_name (tasks a ! t') = name2 \<and>
            f \<in> set (output_files (tasks a ! t')))) \<and>
   (snd (search_up d a t name key inp) = None \<longrightarrow>
      (\<forall>t' f. upstream a t t' \<and> task_name (tasks a ! t') = name \<and>
              f \<in> set (offered a inp t') \<and> key \<in> set (filekeys (files a ! f))
              \<longrightarrow> f \<in> set (fst (search_up d a t name key inp))))"
proof (intro conjI ballI impI allI)
  fix f assume "f \<in> set (fst (search_up d a t name key inp))"
  from search_up_sound [OF this]
  show "key \<in> set (filekeys (files a ! f))"
    and "\<exists>t'. upstream a t t' \<and> task_name (tasks a ! t') = name \<and> f \<in> set (offered a inp t')"
    by simp_all
next
  fix f assume "f \<in> set (fst (search_down d2 a t2 name2 key2))"
  from search_down_sound [OF this]
  show "key2 \<in> set (filekeys (files a ! f))"
    and "\<exists>t'. downstream a t2 t' \<and> task_name (tasks a ! t') = name2 \<and>
              f \<in> set (output_files (tasks a ! t'))"
    by simp_all
next
  fix t' f
  assume "snd (search_up d a t name key inp) = None"
    and "upstream a t t' \<and> task_name (tasks a ! t') = name \<and>
         f \<in> set (offered a inp t') \<and> key \<in> set (filekeys (files a ! f))"
  then show "f \<in> set (fst (search_up d a t name key inp))"
    using search_up_complete by blast
qed

lemma demo_search_up: "search_up 3 demo_graph 1 ''align'' ''bam'' False = ([0], None)"
  by (simp add: numeral_3_eq_3 demo_graph_def gen_then_def with_key_def offered_def py_set_def)

lemma demo_search_down: "search_down 3 demo_graph 0 ''dedup'' ''nodup_bam'' = ([1], None)"
  by (simp add: numeral_3_eq_3 demo_graph_def gen_then_def with_key_def py_set_def)

theorem search_yields_only_role_key_witness:
  "search_up 3 demo_graph 1 ''align'' ''bam'' False = ([0], None) \<and>
   search_down 3 demo_graph 0 ''dedup'' ''nodup_bam'' = ([1], None) \<and>
   ''bam'' \<in> set (filekeys (files demo_graph ! 0)) \<and>
   ''nodup_bam'' \<in> set (filekeys (files demo_graph ! 1)) \<and>
   (\<exists>t'. upstream demo_graph 1 t' \<and> task_name (tasks demo_graph ! t') = ''align'' \<and>
         0 \<in> set (offered demo_graph False t'))"
  using search_yields_only_role_key [where d = 3 and a = demo_graph and t = 1
      and name = "''align''" and key = "''bam''" and inp = False and ?d2.0 = 3 and ?t2.0 = 0
      and ?name2.0 = "''dedup''" and ?key2.0 = "''nodup_bam''"]
    demo_search_up demo_search_down
  by simp

text \<open>
  C9. On a task without output files \<open>search_down\<close> raises the TypeError of
  \<^verbatim>\<open>reduce\<close> and yields nothing; and a search that ends normally has met no such task
  among the tasks reachable through consumers, so reaching one always ends the search in
  an exception.
\<close>

theorem search_down_raises_without_outputs:
  "(output_files (tasks a ! t) = [] \<longrightarrow>
      search_down (Suc d) a t name key =
        ([], Some (Raise TypeError ''reduce() of empty sequence with no initial value''))) \<and>
   (downstream a t0 t' \<and> output_files (tasks a ! t') = [] \<longrightarrow>
      snd (search_down d0 a t0 name0 key0) \<noteq> None)"
  using search_down_no_outputs search_down_ok_outputs by blast

theorem search_down_raises_without_outputs_witness:
  "output_files (tasks shard_graph ! 2) = [] \<and>
   search_down (Suc 1) shard_graph 2 ''dedup'' ''bam'' =
     ([], Some (Raise TypeError ''reduce() of empty sequence with no initial value'')) \<and>
   downstream shard_graph 0 2 \<and>
   snd (search_down 3 shard_graph 0 ''align'' ''bam'') \<noteq> None \<and>
   search_down 3 shard_graph 0 ''align'' ''bam'' =
     ([0], Some (Raise TypeError ''reduce() of empty sequence with no initial value''))"
proof -
  have e: "output_files (tasks shard_graph ! 2) = []" by (simp add: shard_graph_def)
  have "0 \<in> set (output_files (tasks shard_graph ! 0))"
    "2 \<in> set (used_by_tasks (files shard_graph ! 0))" by (simp_all add: shard_graph_def)
  from down_step [OF down_self this] have r: "downstream shard_graph 0 2" .
  have v: "search_down 3 shard_graph 0 ''align'' ''bam'' =
     ([0], Some (Raise TypeError ''reduce() of empty sequence with no initial value''))"
    by (simp add: numeral_3_eq_3 shard_graph_def gen_then_def with_key_def py_set_def)
  from search_down_raises_without_outputs [where a = shard_graph and t = 2 and d = 1
      and name = "''dedup''" and key = "''bam''" and ?t0.0 = 0 and t' = 2 and ?d0.0 = 3
      and ?name0.0 = "''align''" and ?key0.0 = "''bam''"]
    e r v show ?thesis by simp
qed

lemma log_frame [simp]:
  "portal (log x s) = portal s" "new_files (log x s) = new_files s"
  "effects (log x s) = effects s @ [x]"
  by (simp_all add: log_def)

lemma file_at_portal_frame:
  "file_at_portal ev fn s = (res, s') \<Longrightarrow>
   portal s' = portal s \<and> new_files s' = new_files s \<and>
   filter is_mutation (effects s') = filter is_mutation (effects s)"
  by (auto simp: file_at_portal_def split: sum.splits list.splits)

lemma file_at_portal_portal:
  "portal s2 = portal s \<Longrightarrow> fst (file_at_portal ev fn s2) = fst (file_at_portal ev fn s)"
  by (auto simp: file_at_portal_def split: sum.splits list.splits)

lemma files_at_portal_frame:
  "files_at_portal ev gs s = (res, s') \<Longrightarrow>
   portal s' = portal s \<and> new_files s' = new_files s \<and>
   filter is_mutation (effects s') = filter is_mutation (effects s)"
proof (induction gs arbitrary: s res s')
  case Nil
  then show ?case by simp
next
  case (Cons g gs)
  obtain r1 s1 where a: "file_at_portal ev (filename (files (graph ev) ! g)) s = (r1, s1)"
    by (cases "file_at_portal ev (filename (files (graph ev) ! g)) s")
  note f1 = file_at_portal_frame [OF a]
  show ?case
  proof (cases r1)
    case (Inl e)
    with Cons.prems a f1 show ?thesis by simp
  next
    case (Inr r)
    obtain r2 s2 where b: "files_at_portal ev gs s1 = (r2, s2)"
      by (cases "files_at_portal ev gs s1")
    from Cons.IH [OF b] f1 have "portal s2 = portal s \<and> new_files s2 = new_files s \<and>
       filter is_mutation (effects s2) = filter is_mutation (effects s)" by simp
    with Cons.prems a b Inr show ?thesis by (cases r2) auto
  qed
qed

lemma patch_file_frame:
  "patch_file ev r props s = (res, s') \<Longrightarrow> new_files s' = new_files s"
  by (auto simp: patch_file_def Let_def split: sum.splits)

lemma get_derived_from_frame:
  "get_derived_from ev file name key otype inp s = (res, s') \<Longrightarrow>
   portal s' = portal s \<and> new_files s' = new_files s \<and>
   filter is_mutation (effects s') = filter is_mutation (effects s)"
  by (auto simp: get_derived_from_def Let_def
      split: option.splits prod.splits sum.splits if_splits dest: files_at_portal_frame)



lemma accession_file_live:
  assumes "file_at_portal ev (filename g) s = (Inr (Some found), s1)"
    and "found \<noteq> empty_record" and "status found \<notin> {Some ''deleted'', Some ''revoked''}"
  shows "accession_file ev c g s = (Inr found, s1)"
  using assms by (simp add: accession_file_def)

lemma accession_file_dead:
  assumes "file_at_portal ev (filename g) s = (Inr (Some found), s1)"
    and "found \<noteq> empty_record" and "status found \<in> {Some ''deleted'', Some ''revoked''}"
    and "accession_file ev c g s = (Inr r, s2)"
  shows "\<exists>payload. mutations s2 = mutations s @ [Patched payload]"
proof -
  from assms(1) have f: "filter is_mutation (effects s1) = filter is_mutation (effects s)"
    using file_at_portal_frame by blast
  from assms have "resubmit ev c g found s1 = (Inr r, s2)"
    by (simp add: accession_file_def)
  then obtain payload where "effects s2 = effects s1 @ [Patched payload]"
    by (auto simp: resubmit_def patch_file_def Let_def split: sum.splits prod.splits)
  with f show ?thesis by (simp add: mutations_def)
qed

lemmas demo_defs =
  demo_env_def demo_conn_def demo_backend_def demo_post_def str_field_def file_record_def
  start_def x_bam_def cand_def live_record_def deleted_record_def other_record_def
  posted_record_def empty_record_def opt_str_def ENCID_KEY_def log_def


lemma demo_lookup_live:
  "file_at_portal demo_env (filename x_bam) (start [live_record]) =
     (Inr (Some live_record),
      log (Got (Some ''ENCFF1'')) (log (Searched ''md5:gs://b/x.bam'') (start [live_record])))"
  by (simp add: file_at_portal_def demo_defs demo_graph_def)




text \<open>
  C5, as the code has it. What \<open>accession_file\<close> looks at is the record the lookup
  returns: the record fetched for the first hit of the search by the file's md5sum. When
  that record is live (not empty, neither deleted nor revoked), two calls of
  \<open>accession_file\<close> in a row both return it and make no create or update call at all: the
  portal, \<open>new_files\<close> and the list of create and update calls are the same after the
  second call as before the first. When that record is deleted or revoked, a first call
  that returns has made one update call, whatever other records of the same md5sum the
  portal holds.
\<close>

theorem accession_file_twice_no_submission:
  "(file_at_portal ev (filename g) s = (Inr (Some live), s1) \<and> live \<noteq> empty_record \<and>
    status live \<notin> {Some ''deleted'', Some ''revoked''}
    \<longrightarrow> accession_file ev c g s = (Inr live, s1) \<and>
        fst (accession_file ev c g s1) = Inr live \<and>
        portal (snd (accession_file ev c g s1)) = portal s \<and>
        new_files (snd (accession_file ev c g s1)) = new_files s \<and>
        mutations (snd (accession_file ev c g s1)) = mutations s) \<and>
   (file_at_portal ev (filename g) t = (Inr (Some dead), t1) \<and> dead \<noteq> empty_record \<and>
    status dead \<in> {Some ''deleted'', Some ''revoked''} \<and>
    accession_file ev c g t = (Inr r, t2)
    \<longrightarrow> (\<exists>payload. mutations t2 = mutations t @ [Patched payload]))"
proof (intro conjI impI)
  assume a: "file_at_portal ev (filename g) s = (Inr (Some live), s1) \<and>
    live \<noteq> empty_record \<and> status live \<notin> {Some ''deleted'', Some ''revoked''}"
  then have f: "portal s1 = portal s" "new_files s1 = new_files s"
    "filter is_mutation (effects s1) = filter is_mutation (effects s)"
    using file_at_portal_frame by blast+
  from a have first: "accession_file ev c g s = (Inr live, s1)"
    using accession_file_live by blast
  obtain r2 s2 where l2: "file_at_portal ev (filename g) s1 = (r2, s2)"
    by (cases "file_at_portal ev (filename g) s1")
  have "fst (file_at_portal ev (filename g) s1) = fst (file_at_portal ev (filename g) s)"
    using file_at_portal_portal [OF f(1)] .
  with a l2 have r2: "r2 = Inr (Some live)" by simp
  from file_at_portal_frame [OF l2] f have g: "portal s2 = portal s" "new_files s2 = new_files s"
    "filter is_mutation (effects s2) = filter is_mutation (effects s)" by simp_all
  from a l2 r2 have second: "accession_file ev c g s1 = (Inr live, s2)"
    using accession_file_live by blast
  from first show "accession_file ev c g s = (Inr live, s1)" .
  from second show "fst (accession_file ev c g s1) = Inr live" by simp
  from second g show "portal (snd (accession_file ev c g s1)) = portal s" by simp
  from second g show "new_files (snd (accession_file ev c g s1)) = new_files s" by simp
  from second g show "mutations (snd (accession_file ev c g s1)) = mutations s"
    by (simp add: mutations_def)
next
  assume "file_at_portal ev (filename g) t = (Inr (Some dead), t1) \<and> dead \<noteq> empty_record \<and>
    status dead \<in> {Some ''deleted'', Some ''revoked''} \<and>
    accession_file ev c g t = (Inr r, t2)"
  then show "\<exists>payload. mutations t2 = mutations t @ [Patched payload]"
    using accession_file_dead by blast
qed

lemma live_record_facts:
  "status live_record \<notin> {Some ''deleted'', Some ''revoked''}" "live_record \<noteq> empty_record"
  by (simp_all add: live_record_def file_record_def empty_record_def)

lemma demo_lookup_dead_first:
  "file_at_portal demo_env (filename x_bam) (start [deleted_record, other_record]) =
     (Inr (Some deleted_record),
      log (Got (Some ''ENCFF1'')) (log (Searched ''md5:gs://b/x.bam'')
        (start [deleted_record, other_record])))"
  by (simp add: file_at_portal_def demo_defs demo_graph_def)

lemma dead_record_facts:
  "status deleted_record \<in> {Some ''deleted'', Some ''revoked''}"
  "deleted_record \<noteq> empty_record"
  "status other_record \<notin> {Some ''deleted'', Some ''revoked''}"
  "enc_md5sum other_record = enc_md5sum deleted_record"
  by (simp_all add: deleted_record_def other_record_def file_record_def empty_record_def)

lemma demo_dead_first_returns:
  "fst (accession_file demo_env cand x_bam (start [deleted_record, other_record]))
     = Inr (file_record ''ENCFF1'' ''uploading'' ''md5:gs://b/x.bam'')"
  by code_simp

lemma demo_dead_first_total:
  "length (mutations (snd (accession_file demo_env cand x_bam
      (snd (accession_file demo_env cand x_bam (start [deleted_record, other_record])))))) = 1"
  by code_simp

theorem accession_file_twice_no_submission_witness:
  "file_at_portal demo_env (filename x_bam) (start [live_record]) =
     (Inr (Some live_record),
      log (Got (Some ''ENCFF1'')) (log (Searched ''md5:gs://b/x.bam'') (start [live_record]))) \<and>
   live_record \<noteq> empty_record \<and>
   status live_record \<notin> {Some ''deleted'', Some ''revoked''} \<and>
   accession_file demo_env cand x_bam (start [live_record]) =
     (Inr live_record,
      log (Got (Some ''ENCFF1'')) (log (Searched ''md5:gs://b/x.bam'') (start [live_record]))) \<and>
   fst (accession_file demo_env cand x_bam
          (log (Got (Some ''ENCFF1'')) (log (Searched ''md5:gs://b/x.bam'') (start [live_record]))))
     = Inr live_record \<and>
   mutations (snd (accession_file demo_env cand x_bam
          (log (Got (Some ''ENCFF1'')) (log (Searched ''md5:gs://b/x.bam'') (start [live_record])))))
     = mutations (start [live_record]) \<and>
   file_at_portal demo_env (filename x_bam) (start [deleted_record, other_record]) =
     (Inr (Some deleted_record),
      log (Got (Some ''ENCFF1'')) (log (Searched ''md5:gs://b/x.bam'')
        (start [deleted_record, other_record]))) \<and>
   deleted_record \<noteq> empty_record \<and>
   status deleted_record \<in> {Some ''deleted'', Some ''revoked''} \<and>
   status other_record \<notin> {Some ''deleted'', Some ''revoked''} \<and>
   enc_md5sum other_record = enc_md5sum deleted_record \<and>
   fst (accession_file demo_env cand x_bam (start [deleted_record, other_record]))
     = Inr (file_record ''ENCFF1'' ''uploading'' ''md5:gs://b/x.bam'') \<and>
   (\<exists>payload. mutations (snd (accession_file demo_env cand x_bam
                                  (start [deleted_record, other_record])))
                = mutations (start [deleted_record, other_record]) @ [Patched payload]) \<and>
   length (mutations (snd (accession_file demo_env cand x_bam
      (snd (accession_file demo_env cand x_bam (start [deleted_record, other_record])))))) = 1"
proof -
  let ?s1 = "log (Got (Some ''ENCFF1'')) (log (Searched ''md5:gs://b/x.bam'') (start [live_record]))"
  have a: "file_at_portal demo_env (filename x_bam) (start [live_record]) =
             (Inr (Some live_record), ?s1) \<and>
           live_record \<noteq> empty_record \<and>
           status live_record \<notin> {Some ''deleted'', Some ''revoked''}"
    using demo_lookup_live live_record_facts by blast
  note A = accession_file_twice_no_submission [where ev = demo_env and g = x_bam and c = cand
      and s = "start [live_record]" and live = live_record and ?s1.0 = ?s1,
      THEN conjunct1, THEN mp, OF a]
  let ?t = "start [deleted_record, other_record]"
  let ?t1 = "log (Got (Some ''ENCFF1'')) (log (Searched ''md5:gs://b/x.bam'') ?t)"
  let ?r = "file_record ''ENCFF1'' ''uploading'' ''md5:gs://b/x.bam''"
  have b: "file_at_portal demo_env (filename x_bam) ?t = (Inr (Some deleted_record), ?t1) \<and>
           deleted_record \<noteq> empty_record \<and>
           status deleted_record \<in> {Some ''deleted'', Some ''revoked''} \<and>
           accession_file demo_env cand x_bam ?t =
             (Inr ?r, snd (accession_file demo_env cand x_bam ?t))"
    using demo_lookup_dead_first dead_record_facts demo_dead_first_returns
    by (simp add: prod_eq_iff)
  note B = accession_file_twice_no_submission [where ev = demo_env and g = x_bam and c = cand
      and t = ?t and dead = deleted_record and ?t1.0 = ?t1 and r = ?r
      and ?t2.0 = "snd (accession_file demo_env cand x_bam ?t)",
      THEN conjunct2, THEN mp, OF b]
  from a A b B dead_record_facts demo_dead_first_returns demo_dead_first_total
  show ?thesis by blast
qed

text \<open>
  C5 as stated fails: on a portal that holds a live record of \<open>x.bam\<close>, the two calls
  together make no create or update call, not one.
\<close>

theorem accession_file_twice_counterexample:
  "fst (accession_file demo_env cand x_bam (start [live_record])) = Inr live_record \<and>
   fst (accession_file demo_env cand x_bam
          (snd (accession_file demo_env cand x_bam (start [live_record])))) = Inr live_record \<and>
   length (mutations (snd (accession_file demo_env cand x_bam
          (snd (accession_file demo_env cand x_bam (start [live_record])))))) = 0 \<and>
   length (mutations (snd (accession_file demo_env cand x_bam
          (snd (accession_file demo_env cand x_bam (start [live_record])))))) \<noteq> 1"
proof -
  let ?s1 = "log (Got (Some ''ENCFF1'')) (log (Searched ''md5:gs://b/x.bam'') (start [live_record]))"
  have a: "accession_file demo_env cand x_bam (start [live_record]) = (Inr live_record, ?s1)"
    using accession_file_live [OF demo_lookup_live live_record_facts(2,1)] .
  have "file_at_portal demo_env (filename x_bam) ?s1 =
          (Inr (Some live_record), log (Got (Some ''ENCFF1'')) (log (Searched ''md5:gs://b/x.bam'') ?s1))"
    by (simp add: file_at_portal_def demo_defs demo_graph_def)
  from accession_file_live [OF this live_record_facts(2,1)]
  have b: "accession_file demo_env cand x_bam ?s1 =
          (Inr live_record, log (Got (Some ''ENCFF1'')) (log (Searched ''md5:gs://b/x.bam'') ?s1))" .
  show ?thesis unfolding a snd_conv fst_conv b
    by (simp add: mutations_def start_def)
qed

lemma twin_build: "make_tasks twin_backend twin_calls = Inr twin_graph"
  by (simp add: make_tasks_def twin_calls_def twin_backend_def twin_graph_def
      make_task_def get_or_make_files_def section_refs_def get_or_make_file_def
      GSFile_def touch_def set_files_def)

lemma set_not_none: "set (not_none xs) = {x. Some x \<in> set xs}"
  by (induction xs rule: not_none.induct) auto

lemma set_accession_ids:
  "set (derived_from_accession_ids a derived accessioned otype) =
     {accession e | g e. g \<in> set derived \<and> e \<in> set accessioned \<and> matches (files a ! g) otype e}"
  by (auto simp: derived_from_accession_ids_def set_py_set)

lemma distinct_accession_ids: "distinct (derived_from_accession_ids a derived accessioned otype)"
  by (simp add: derived_from_accession_ids_def distinct_py_set)

lemma length_py_set: "length (py_set xs) = card (set xs)"
  using distinct_card [OF distinct_py_set, of xs] by (simp add: set_py_set)

lemma length_accession_ids:
  "length (derived_from_accession_ids a derived accessioned otype) =
     card (set (derived_from_accession_ids a derived accessioned otype))"
  using distinct_card [OF distinct_accession_ids] by metis

lemma missing_errors_differ:
  "MissingAllDerivedFrom \<noteq> MissingSomeDerivedFrom"
  by (simp add: MissingAllDerivedFrom_def MissingSomeDerivedFrom_def)

lemma get_derived_from_cases:
  assumes "task (files (graph ev) ! file) = Some t"
    and "search_up (depth ev) (graph ev) t name key inp = (found, None)"
    and "files_at_portal ev (py_set found) s = (Inr encode_files, s1)"
    and "ids = derived_from_accession_ids (graph ev) (py_set found)
                 (not_none (encode_files @ map Some (new_files s1))) otype"
  shows "get_derived_from ev file name key otype inp s =
           (if ids = [] then (Inl MissingAllDerivedFrom, s1)
            else if length ids \<noteq> length (py_set found) then (Inl MissingSomeDerivedFrom, s1)
            else (Inr (map file_ref ids), s1))"
  using assms by (simp add: get_derived_from_def Let_def)

lemma shared_record_fewer:
  assumes "g1 \<in> set derived" "g2 \<in> set derived" "g1 \<noteq> g2"
    and "\<forall>g\<in>set derived. \<exists>e\<in>set accessioned. matches (files a ! g) otype e"
    and "\<forall>g\<in>set derived. \<forall>e\<in>set accessioned. matches (files a ! g) otype e \<longrightarrow> accession e = x"
  shows "derived_from_accession_ids a derived accessioned otype \<noteq> [] \<and>
         length (derived_from_accession_ids a derived accessioned otype) < card (set derived)"
proof -
  let ?ids = "derived_from_accession_ids a derived accessioned otype"
  from assms(1,4) obtain e1 where e1: "e1 \<in> set accessioned" "matches (files a ! g1) otype e1"
    by blast
  with assms(1,5) have "accession e1 = x" by blast
  with e1 assms(1) have "x \<in> set ?ids" unfolding set_accession_ids by blast
  moreover have "set ?ids \<subseteq> {x}" unfolding set_accession_ids using assms(5) by blast
  ultimately have "set ?ids = {x}" by blast
  then have "length ?ids = 1" "?ids \<noteq> []"
    using length_accession_ids [of a derived accessioned otype] by auto
  moreover have "card {g1, g2} \<le> card (set derived)"
    using assms(1,2) by (intro card_mono) auto
  then have "2 \<le> card (set derived)" using assms(3) by simp
  ultimately show ?thesis by simp
qed

lemma surplus_records_more:
  assumes "e1 \<in> set accessioned" "e2 \<in> set accessioned"
    and "matches (files a ! g) otype e1" "matches (files a ! g) otype e2"
    and "accession e1 \<noteq> accession e2"
  shows "1 < length (derived_from_accession_ids a [g] accessioned otype)"
proof -
  let ?ids = "derived_from_accession_ids a [g] accessioned otype"
  have "{accession e1, accession e2} \<subseteq> set ?ids"
    unfolding set_accession_ids using assms by auto
  then have "card {accession e1, accession e2} \<le> card (set ?ids)"
    by (intro card_mono) auto
  then show ?thesis using assms(5) length_accession_ids [of a "[g]" accessioned otype] by simp
qed

lemma demo_ancestors: "search_up (depth demo_env) (graph demo_env) 1 ''align'' ''bam'' False = ([0], None)"
  by (simp add: demo_env_def eval_nat_numeral demo_graph_def gen_then_def with_key_def
      offered_def py_set_def)

lemma twin_ancestors: "search_up (depth twin_env) (graph twin_env) 1 ''align'' ''bam'' False = ([0, 1], None)"
  by (simp add: twin_env_def demo_env_def eval_nat_numeral twin_graph_def gen_then_def
      with_key_def offered_def py_set_def)

lemma demo_surplus_lookup:
  "files_at_portal demo_env (py_set [0]) surplus_state =
     (Inr [Some live_record],
      log (Got (Some ''ENCFF1'')) (log (Searched ''md5:gs://b/x.bam'') surplus_state))"
  by (simp add: py_set_def file_at_portal_def demo_defs demo_graph_def surplus_state_def)

lemma twin_lookup:
  "files_at_portal twin_env (py_set [0, 1]) (start [twin_record1]) =
     (Inr [Some twin_record1, Some twin_record1],
      log (Got (Some ''ENCFF1'')) (log (Searched ''d41d8cd9'')
        (log (Got (Some ''ENCFF1'')) (log (Searched ''d41d8cd9'') (start [twin_record1])))))"
  by (simp add: py_set_def file_at_portal_def twin_env_def twin_backend_def twin_graph_def
      twin_record1_def demo_defs)

lemma twin_offset_lookup:
  "files_at_portal twin_env (py_set [0, 1]) offset_state =
     (Inr [Some twin_record1, Some twin_record1],
      log (Got (Some ''ENCFF1'')) (log (Searched ''d41d8cd9'')
        (log (Got (Some ''ENCFF1'')) (log (Searched ''d41d8cd9'') offset_state))))"
  by (simp add: py_set_def file_at_portal_def twin_env_def twin_backend_def twin_graph_def
      twin_record1_def twin_record2_def offset_state_def demo_defs)

text \<open>
  C10, as the code has it. When the search and the look-ups at the portal succeed,
  \<open>get_derived_from\<close> raises MissingSomeDerivedFrom exactly when the number of distinct
  matched accessions is not zero and differs from the number of distinct ancestors. So it
  raises, although every ancestor has a record, when two or more ancestors all match
  records of one accession only, and when a single ancestor matches records of two
  accessions.
\<close>

theorem derived_from_count_mismatch:
  "task (files (graph ev) ! f) = Some t \<and>
   search_up (depth ev) (graph ev) t name key inp = (found, None) \<and>
   files_at_portal ev (py_set found) s = (Inr encode_files, s1) \<and>
   accessioned = not_none (encode_files @ map Some (new_files s1))
   \<longrightarrow>
   ((get_derived_from ev f name key otype inp s = (Inl MissingSomeDerivedFrom, s1)) =
      (derived_from_accession_ids (graph ev) (py_set found) accessioned otype \<noteq> [] \<and>
       length (derived_from_accession_ids (graph ev) (py_set found) accessioned otype)
         \<noteq> card (set found))) \<and>
   (g1 \<in> set found \<and> g2 \<in> set found \<and> g1 \<noteq> g2 \<and>
    (\<forall>g\<in>set found. \<exists>e\<in>set accessioned. matches (files (graph ev) ! g) otype e) \<and>
    (\<forall>g\<in>set found. \<forall>e\<in>set accessioned.
        matches (files (graph ev) ! g) otype e \<longrightarrow> accession e = x)
    \<longrightarrow> get_derived_from ev f name key otype inp s = (Inl MissingSomeDerivedFrom, s1)) \<and>
   (py_set found = [g] \<and> e1 \<in> set accessioned \<and> e2 \<in> set accessioned \<and>
    matches (files (graph ev) ! g) otype e1 \<and> matches (files (graph ev) ! g) otype e2 \<and>
    accession e1 \<noteq> accession e2
    \<longrightarrow> get_derived_from ev f name key otype inp s = (Inl MissingSomeDerivedFrom, s1))"
proof (intro impI)
  assume h: "task (files (graph ev) ! f) = Some t \<and>
   search_up (depth ev) (graph ev) t name key inp = (found, None) \<and>
   files_at_portal ev (py_set found) s = (Inr encode_files, s1) \<and>
   accessioned = not_none (encode_files @ map Some (new_files s1))"
  let ?ids = "derived_from_accession_ids (graph ev) (py_set found) accessioned otype"
  from h have r: "get_derived_from ev f name key otype inp s =
           (if ?ids = [] then (Inl MissingAllDerivedFrom, s1)
            else if length ?ids \<noteq> length (py_set found) then (Inl MissingSomeDerivedFrom, s1)
            else (Inr (map file_ref ?ids), s1))"
    by (intro get_derived_from_cases) auto
  have len: "length (py_set found) = card (set found)" by (rule length_py_set)
  have c1: "(get_derived_from ev f name key otype inp s = (Inl MissingSomeDerivedFrom, s1)) =
      (?ids \<noteq> [] \<and> length ?ids \<noteq> card (set found))"
    unfolding r len using missing_errors_differ by auto
  have c2: "get_derived_from ev f name key otype inp s = (Inl MissingSomeDerivedFrom, s1)"
    if a: "g1 \<in> set found \<and> g2 \<in> set found \<and> g1 \<noteq> g2 \<and>
      (\<forall>g\<in>set found. \<exists>e\<in>set accessioned. matches (files (graph ev) ! g) otype e) \<and>
      (\<forall>g\<in>set found. \<forall>e\<in>set accessioned.
          matches (files (graph ev) ! g) otype e \<longrightarrow> accession e = x)"
  proof -
    have "?ids \<noteq> [] \<and> length ?ids < card (set (py_set found))"
      using a by (intro shared_record_fewer [where ?g1.0 = g1 and ?g2.0 = g2 and x = x])
        (simp_all add: set_py_set)
    then show ?thesis using c1 by (simp add: set_py_set)
  qed
  have c3: "get_derived_from ev f name key otype inp s = (Inl MissingSomeDerivedFrom, s1)"
    if b: "py_set found = [g] \<and> e1 \<in> set accessioned \<and> e2 \<in> set accessioned \<and>
      matches (files (graph ev) ! g) otype e1 \<and> matches (files (graph ev) ! g) otype e2 \<and>
      accession e1 \<noteq> accession e2"
  proof -
    from b have "1 < length (derived_from_accession_ids (graph ev) [g] accessioned otype)"
      by (intro surplus_records_more [where ?e1.0 = e1 and ?e2.0 = e2]) simp_all
    moreover from b len have "card (set found) = 1" by simp
    ultimately show ?thesis using c1 b by auto
  qed
  from c1 c2 c3 show "((get_derived_from ev f name key otype inp s = (Inl MissingSomeDerivedFrom, s1)) =
      (?ids \<noteq> [] \<and> length ?ids \<noteq> card (set found))) \<and>
   (g1 \<in> set found \<and> g2 \<in> set found \<and> g1 \<noteq> g2 \<and>
    (\<forall>g\<in>set found. \<exists>e\<in>set accessioned. matches (files (graph ev) ! g) otype e) \<and>
    (\<forall>g\<in>set found. \<forall>e\<in>set accessioned.
        matches (files (graph ev) ! g) otype e \<longrightarrow> accession e = x)
    \<longrightarrow> get_derived_from ev f name key otype inp s = (Inl MissingSomeDerivedFrom, s1)) \<and>
   (py_set found = [g] \<and> e1 \<in> set accessioned \<and> e2 \<in> set accessioned \<and>
    matches (files (graph ev) ! g) otype e1 \<and> matches (files (graph ev) ! g) otype e2 \<and>
    accession e1 \<noteq> accession e2
    \<longrightarrow> get_derived_from ev f name key otype inp s = (Inl MissingSomeDerivedFrom, s1))"
    by blast
qed

lemma demo_matches:
  "matches (files (graph demo_env) ! 0) None live_record"
  "matches (files (graph demo_env) ! 0) None other_record"
  "accession live_record \<noteq> accession other_record"
  by (simp_all add: matches_def demo_env_def demo_graph_def live_record_def other_record_def
      file_record_def)

lemma twin_matches:
  "matches (files (graph twin_env) ! 0) None twin_record1"
  "matches (files (graph twin_env) ! 1) None twin_record1"
  "matches (files (graph twin_env) ! 0) None twin_record2"
  "matches (files (graph twin_env) ! 1) None twin_record2"
  by (simp_all add: matches_def twin_env_def twin_graph_def twin_record1_def twin_record2_def
      file_record_def)

theorem derived_from_count_mismatch_witness:
  "search_up (depth demo_env) (graph demo_env) 1 ''align'' ''bam'' False = ([0], None) \<and>
   matches (files (graph demo_env) ! 0) None live_record \<and>
   matches (files (graph demo_env) ! 0) None other_record \<and>
   get_derived_from demo_env 1 ''align'' ''bam'' None False surplus_state =
     (Inl MissingSomeDerivedFrom,
      log (Got (Some ''ENCFF1'')) (log (Searched ''md5:gs://b/x.bam'') surplus_state)) \<and>
   search_up (depth twin_env) (graph twin_env) 1 ''align'' ''bam'' False = ([0, 1], None) \<and>
   matches (files (graph twin_env) ! 0) None twin_record1 \<and>
   matches (files (graph twin_env) ! 1) None twin_record1 \<and>
   get_derived_from twin_env 2 ''align'' ''bam'' None False (start [twin_record1]) =
     (Inl MissingSomeDerivedFrom,
      log (Got (Some ''ENCFF1'')) (log (Searched ''d41d8cd9'')
        (log (Got (Some ''ENCFF1'')) (log (Searched ''d41d8cd9'') (start [twin_record1])))))"
proof -
  have t1: "task (files (graph demo_env) ! 1) = Some 1"
    by (simp add: demo_env_def demo_graph_def)
  have p1: "py_set [0::nat] = [0]" by (simp add: py_set_def)
  have n1: "[live_record, other_record] =
      not_none ([Some live_record] @ map Some (new_files
        (log (Got (Some ''ENCFF1'')) (log (Searched ''md5:gs://b/x.bam'') surplus_state))))"
    by (simp add: surplus_state_def)
  note T1 = derived_from_count_mismatch [where ev = demo_env and f = 1 and t = 1
      and name = "''align''" and key = "''bam''" and inp = False and found = "[0]"
      and s = surplus_state and encode_files = "[Some live_record]"
      and ?s1.0 = "log (Got (Some ''ENCFF1'')) (log (Searched ''md5:gs://b/x.bam'') surplus_state)"
      and accessioned = "[live_record, other_record]" and otype = None
      and g = 0 and ?e1.0 = live_record and ?e2.0 = other_record]
  have H1: "task (files (graph demo_env) ! 1) = Some 1 \<and>
      search_up (depth demo_env) (graph demo_env) 1 ''align'' ''bam'' False = ([0], None) \<and>
      files_at_portal demo_env (py_set [0]) surplus_state =
        (Inr [Some live_record],
         log (Got (Some ''ENCFF1'')) (log (Searched ''md5:gs://b/x.bam'') surplus_state)) \<and>
      [live_record, other_record] =
        not_none ([Some live_record] @ map Some (new_files
          (log (Got (Some ''ENCFF1'')) (log (Searched ''md5:gs://b/x.bam'') surplus_state))))"
    using t1 demo_ancestors demo_surplus_lookup n1 by blast
  have B1: "py_set [0::nat] = [0] \<and> live_record \<in> set [live_record, other_record] \<and>
      other_record \<in> set [live_record, other_record] \<and>
      matches (files (graph demo_env) ! 0) None live_record \<and>
      matches (files (graph demo_env) ! 0) None other_record \<and>
      accession live_record \<noteq> accession other_record"
    using p1 demo_matches by simp
  from T1 [THEN mp, OF H1, THEN conjunct2, THEN conjunct2, THEN mp, OF B1]
  have a: "get_derived_from demo_env 1 ''align'' ''bam'' None False surplus_state =
     (Inl MissingSomeDerivedFrom,
      log (Got (Some ''ENCFF1'')) (log (Searched ''md5:gs://b/x.bam'') surplus_state))" .
  have t2: "task (files (graph twin_env) ! 2) = Some 1"
    by (simp add: twin_env_def twin_graph_def)
  have n2: "[twin_record1, twin_record1] =
      not_none ([Some twin_record1, Some twin_record1] @ map Some (new_files
        (log (Got (Some ''ENCFF1'')) (log (Searched ''d41d8cd9'')
          (log (Got (Some ''ENCFF1'')) (log (Searched ''d41d8cd9'') (start [twin_record1])))))))"
    by (simp add: start_def)
  note T2 = derived_from_count_mismatch [where ev = twin_env and f = 2 and t = 1
      and name = "''align''" and key = "''bam''" and inp = False and found = "[0, 1]"
      and s = "start [twin_record1]"
      and encode_files = "[Some twin_record1, Some twin_record1]"
      and ?s1.0 = "log (Got (Some ''ENCFF1'')) (log (Searched ''d41d8cd9'')
          (log (Got (Some ''ENCFF1'')) (log (Searched ''d41d8cd9'') (start [twin_record1]))))"
      and accessioned = "[twin_record1, twin_record1]" and otype = None
      and ?g1.0 = 0 and ?g2.0 = 1 and x = "Some ''ENCFF1''"]
  have H2: "task (files (graph twin_env) ! 2) = Some 1 \<and>
      search_up (depth twin_env) (graph twin_env) 1 ''align'' ''bam'' False = ([0, 1], None) \<and>
      files_at_portal twin_env (py_set [0, 1]) (start [twin_record1]) =
        (Inr [Some twin_record1, Some twin_record1],
         log (Got (Some ''ENCFF1'')) (log (Searched ''d41d8cd9'')
           (log (Got (Some ''ENCFF1'')) (log (Searched ''d41d8cd9'') (start [twin_record1]))))) \<and>
      [twin_record1, twin_record1] =
        not_none ([Some twin_record1, Some twin_record1] @ map Some (new_files
          (log (Got (Some ''ENCFF1'')) (log (Searched ''d41d8cd9'')
            (log (Got (Some ''ENCFF1'')) (log (Searched ''d41d8cd9'') (start [twin_record1])))))))"
    using t2 twin_ancestors twin_lookup n2 by blast
  have B2: "(0::nat) \<in> set [0, 1] \<and> (1::nat) \<in> set [0, 1] \<and> (0::nat) \<noteq> 1 \<and>
      (\<forall>g\<in>set [0, 1]. \<exists>e\<in>set [twin_record1, twin_record1].
          matches (files (graph twin_env) ! g) None e) \<and>
      (\<forall>g\<in>set [0, 1]. \<forall>e\<in>set [twin_record1, twin_record1].
          matches (files (graph twin_env) ! g) None e \<longrightarrow> accession e = Some ''ENCFF1'')"
    using twin_matches(1,2) by (simp add: twin_record1_def file_record_def)
  from T2 [THEN mp, OF H2, THEN conjunct2, THEN conjunct1, THEN mp, OF B2]
  have b: "get_derived_from twin_env 2 ''align'' ''bam'' None False (start [twin_record1]) =
     (Inl MissingSomeDerivedFrom,
      log (Got (Some ''ENCFF1'')) (log (Searched ''d41d8cd9'')
        (log (Got (Some ''ENCFF1'')) (log (Searched ''d41d8cd9'') (start [twin_record1])))))" .
  from a b demo_ancestors twin_ancestors demo_matches(1,2) twin_matches(1,2)
  show ?thesis by blast
qed

text \<open>
  C10 as stated fails when the two effects offset each other: the two ancestors have the
  same md5sum and match the same records, one of them matches more than one record, and
  still the call returns, because there are two accessions for two ancestors.
\<close>

theorem derived_from_offset_counterexample:
  "search_up (depth twin_env) (graph twin_env) 1 ''align'' ''bam'' False = ([0, 1], None) \<and>
   md5sum (files (graph twin_env) ! 0) = md5sum (files (graph twin_env) ! 1) \<and>
   matches (files (graph twin_env) ! 0) None twin_record1 \<and>
   matches (files (graph twin_env) ! 1) None twin_record1 \<and>
   matches (files (graph twin_env) ! 0) None twin_record2 \<and>
   twin_record1 \<in> set (portal offset_state) \<and>
   twin_record2 \<in> set (new_files offset_state) \<and>
   fst (get_derived_from twin_env 2 ''align'' ''bam'' None False offset_state) =
     Inr [''/files/ENCFF1/'', ''/files/ENCFF2/''] \<and>
   fst (get_derived_from twin_env 2 ''align'' ''bam'' None False offset_state) \<noteq>
     Inl MissingSomeDerivedFrom"
proof -
  have t2: "task (files (graph twin_env) ! 2) = Some 1"
    by (simp add: twin_env_def twin_graph_def)
  have ids: "derived_from_accession_ids (graph twin_env) (py_set [0, 1])
        (not_none ([Some twin_record1, Some twin_record1] @ map Some (new_files
          (log (Got (Some ''ENCFF1'')) (log (Searched ''d41d8cd9'')
             (log (Got (Some ''ENCFF1'')) (log (Searched ''d41d8cd9'') offset_state)))))))
        None = [Some ''ENCFF1'', Some ''ENCFF2'']"
    by (simp add: derived_from_accession_ids_def py_set_def offset_state_def matches_def
        twin_env_def twin_graph_def twin_record1_def twin_record2_def file_record_def)
  have "get_derived_from twin_env 2 ''align'' ''bam'' None False offset_state =
     (Inr [''/files/ENCFF1/'', ''/files/ENCFF2/''],
      log (Got (Some ''ENCFF1'')) (log (Searched ''d41d8cd9'')
        (log (Got (Some ''ENCFF1'')) (log (Searched ''d41d8cd9'') offset_state))))"
    unfolding get_derived_from_cases [OF t2 twin_ancestors twin_offset_lookup refl] ids
    by (simp add: py_set_def file_ref_def)
  moreover have "md5sum (files (graph twin_env) ! 0) = md5sum (files (graph twin_env) ! 1)"
    "twin_record1 \<in> set (portal offset_state)" "twin_record2 \<in> set (new_files offset_state)"
    by (simp_all add: twin_env_def twin_graph_def offset_state_def)
  ultimately show ?thesis using twin_ancestors twin_matches(1,2,3) by simp
qed

text \<open>
  C3 at the input where the code departs from it: \<open>y.bam\<close> has the one ancestor
  \<open>x.bam\<close>; its md5sum is that of two records, one found at the portal and one in
  \<open>new_files\<close>. No ancestor is missing, and the call raises MissingSomeDerivedFrom.
\<close>

theorem derived_from_surplus_raises:
  "search_up (depth demo_env) (graph demo_env) 1 ''align'' ''bam'' False = ([0], None) \<and>
   matches (files (graph demo_env) ! 0) None live_record \<and>
   live_record \<in> set (portal surplus_state) \<and>
   other_record \<in> set (new_files surplus_state) \<and>
   derived_from_accession_ids (graph demo_env) [0] [live_record, other_record] None =
     [Some ''ENCFF1'', Some ''ENCFF2''] \<and>
   fst (get_derived_from demo_env 1 ''align'' ''bam'' None False surplus_state) =
     Inl MissingSomeDerivedFrom"
proof -
  have t1: "task (files (graph demo_env) ! 1) = Some 1"
    by (simp add: demo_env_def demo_graph_def)
  have ids: "derived_from_accession_ids (graph demo_env) [0] [live_record, other_record] None =
     [Some ''ENCFF1'', Some ''ENCFF2'']"
    by (simp add: derived_from_accession_ids_def py_set_def matches_def demo_env_def
        demo_graph_def live_record_def other_record_def file_record_def)
  have p1: "py_set [0::nat] = [0]" by (simp add: py_set_def)
  have n1: "not_none ([Some live_record] @ map Some (new_files
        (log (Got (Some ''ENCFF1'')) (log (Searched ''md5:gs://b/x.bam'') surplus_state))))
      = [live_record, other_record]"
    by (simp add: surplus_state_def)
  have "get_derived_from demo_env 1 ''align'' ''bam'' None False surplus_state =
     (Inl MissingSomeDerivedFrom,
      log (Got (Some ''ENCFF1'')) (log (Searched ''md5:gs://b/x.bam'') surplus_state))"
    unfolding get_derived_from_cases [OF t1 demo_ancestors demo_surplus_lookup refl] n1 p1 ids
    by simp
  moreover have "live_record \<in> set (portal surplus_state)"
    "other_record \<in> set (new_files surplus_state)"
    by (simp_all add: surplus_state_def)
  ultimately show ?thesis using demo_ancestors demo_matches(1) ids by simp
qed

lemma patch_file_mutation:
  "patch_file ev r props s = (res, s') \<Longrightarrow>
   new_files s' = new_files s \<and> (\<exists>d. mutations s' = mutations s @ [Patched d])"
  by (auto simp: patch_file_def Let_def mutations_def split: sum.splits)

lemma submit_new_cache:
  "submit_new ev c g s = (Inr r, s') \<Longrightarrow>
   new_files s' = new_files s @ [r] \<and> mutations s' \<noteq> mutations s"
  by (auto simp: submit_new_def Let_def mutations_def patch_file_def
      split: sum.splits prod.splits)

lemma submit_new_error:
  "submit_new ev c g s = (Inl e, s') \<Longrightarrow> new_files s' = new_files s"
  by (auto simp: submit_new_def Let_def patch_file_def split: sum.splits prod.splits)

lemma resubmit_cache:
  "resubmit ev c g found s = (Inr r, s') \<Longrightarrow>
   new_files s' = new_files s @ [r] \<and> mutations s' \<noteq> mutations s"
  by (auto simp: resubmit_def Let_def mutations_def patch_file_def
      split: sum.splits prod.splits)

lemma resubmit_error:
  "resubmit ev c g found s = (Inl e, s') \<Longrightarrow> new_files s' = new_files s"
  by (auto simp: resubmit_def Let_def patch_file_def split: sum.splits prod.splits)

lemma accession_file_cache:
  assumes "accession_file ev c g s = (Inr r, s')"
  shows "(new_files s' = new_files s @ [r] \<and> mutations s' \<noteq> mutations s) \<or>
         (new_files s' = new_files s \<and> portal s' = portal s \<and> mutations s' = mutations s)"
proof -
  obtain l s1 where l: "file_at_portal ev (filename g) s = (l, s1)"
    by (cases "file_at_portal ev (filename g) s")
  note f = file_at_portal_frame [OF l]
  from f have m: "mutations s1 = mutations s" by (simp add: mutations_def)
  show ?thesis
  proof (cases l)
    case (Inl e)
    with assms l show ?thesis by (simp add: accession_file_def)
  next
    case (Inr fe)
    show ?thesis
    proof (cases fe)
      case None
      with assms l Inr have "submit_new ev c g s1 = (Inr r, s')"
        by (simp add: accession_file_def)
      from submit_new_cache [OF this] f m show ?thesis by simp
    next
      case (Some found)
      consider (empty) "found = empty_record"
        | (gone) "found \<noteq> empty_record" "status found \<in> {Some ''deleted'', Some ''revoked''}"
        | (live) "found \<noteq> empty_record" "status found \<notin> {Some ''deleted'', Some ''revoked''}"
        by blast
      then show ?thesis
      proof cases
        case empty
        with assms l Inr Some have "submit_new ev c g s1 = (Inr r, s')"
          by (simp add: accession_file_def)
        from submit_new_cache [OF this] f m show ?thesis by simp
      next
        case gone
        with assms l Inr Some have "resubmit ev c g found s1 = (Inr r, s')"
          by (simp add: accession_file_def)
        from resubmit_cache [OF this] f m show ?thesis by simp
      next
        case live
        with assms l Inr Some have "s' = s1" by (simp add: accession_file_def)
        with f m show ?thesis by simp
      qed
    qed
  qed
qed

lemma accession_file_error:
  assumes "accession_file ev c g s = (Inl e, s')"
  shows "new_files s' = new_files s"
proof -
  obtain l s1 where l: "file_at_portal ev (filename g) s = (l, s1)"
    by (cases "file_at_portal ev (filename g) s")
  note f = file_at_portal_frame [OF l]
  from assms l f show ?thesis
    by (auto simp: accession_file_def split: sum.splits option.splits if_splits
        dest: submit_new_error resubmit_error)
qed

lemma accession_file_grows:
  "accession_file ev c g s = (res, s') \<Longrightarrow> \<exists>added. new_files s' = new_files s @ added"
  by (cases res) (auto dest!: accession_file_error accession_file_cache)

lemma get_derived_from_all_frame:
  "get_derived_from_all ev f ancs s = (res, s') \<Longrightarrow> new_files s' = new_files s"
proof (induction ancs arbitrary: s res s')
  case Nil
  then show ?case by simp
next
  case (Cons anc ancs)
  obtain r1 s1 where a: "get_derived_from ev f (derived_from_task anc) (derived_from_filekey anc)
             (derived_from_output_type anc) (derived_from_inputs anc) s = (r1, s1)"
    by (cases "get_derived_from ev f (derived_from_task anc) (derived_from_filekey anc)
             (derived_from_output_type anc) (derived_from_inputs anc) s")
  from get_derived_from_frame [OF a] have f1: "new_files s1 = new_files s" by simp
  show ?case
  proof (cases r1)
    case (Inl e)
    with Cons.prems a f1 show ?thesis by simp
  next
    case (Inr refs)
    obtain r2 s2 where b: "get_derived_from_all ev f ancs s1 = (r2, s2)"
      by (cases "get_derived_from_all ev f ancs s1")
    from Cons.IH [OF b] f1 have "new_files s2 = new_files s" by simp
    with Cons.prems a b Inr show ?thesis by (cases r2) auto
  qed
qed

lemma dataset_frame: "dataset ev s = (res, s') \<Longrightarrow> new_files s' = new_files s"
  by (auto simp: dataset_def split: list.splits prod.splits sum.splits option.splits
      dest: file_at_portal_frame)

lemma make_file_obj_frame: "make_file_obj ev f fp sr s = (res, s') \<Longrightarrow> new_files s' = new_files s"
  by (auto simp: make_file_obj_def split: prod.splits sum.splits
      dest!: get_derived_from_all_frame dataset_frame)

lemma try_file_grows:
  "try_file ev sr fp f s = (res, s') \<Longrightarrow> \<exists>added. new_files s' = new_files s @ added"
  by (auto simp: try_file_def split: prod.splits sum.splits
      dest!: make_file_obj_frame accession_file_grows)

lemma attach_all_frame:
  "attach_all ev qcs r g s = (res, s') \<Longrightarrow> new_files s' = new_files s"
proof (induction qcs arbitrary: s res s')
  case Nil
  then show ?case by simp
next
  case (Cons qc qcs)
  then show ?case
    by (auto split: option.splits sum.splits)
qed

lemma accession_items_grows:
  "accession_items ev sr items acc s = (res, s') \<Longrightarrow> \<exists>added. new_files s' = new_files s @ added"
proof (induction items arbitrary: acc s res s')
  case Nil
  then show ?case by simp
next
  case (Cons item items)
  obtain r1 s1 where a: "try_file ev sr (fst item) (snd item) s = (r1, s1)"
    by (cases "try_file ev sr (fst item) (snd item) s")
  from try_file_grows [OF a] obtain a1 where g1: "new_files s1 = new_files s @ a1" by blast
  show ?case
  proof (cases r1)
    case (Inl e)
    with Cons.prems a have
      "accession_items ev sr items acc s1 = (res, s') \<or> (res, s') = (Inl e, s1)"
      by (auto split: if_splits)
    then show ?thesis
    proof
      assume "accession_items ev sr items acc s1 = (res, s')"
      from Cons.IH [OF this] obtain a2 where "new_files s' = new_files s1 @ a2" by blast
      with g1 have "new_files s' = new_files s @ (a1 @ a2)" by simp
      then show ?thesis by blast
    next
      assume "(res, s') = (Inl e, s1)"
      with g1 show ?thesis by auto
    qed
  next
    case (Inr encode_file)
    obtain r2 s2 where b: "attach_all ev (quality_metrics (fst item)) encode_file
                  (files (graph ev) ! snd item) s1 = (r2, s2)"
      by (cases "attach_all ev (quality_metrics (fst item)) encode_file
                  (files (graph ev) ! snd item) s1")
    from attach_all_frame [OF b] g1 have g2: "new_files s2 = new_files s @ a1" by simp
    show ?thesis
    proof (cases r2)
      case (Inl e)
      with Cons.prems a b Inr g2 show ?thesis by auto
    next
      case (Inr u)
      with Cons.prems a b \<open>r1 = Inr encode_file\<close> have
        "accession_items ev sr items (acc @ [encode_file]) s2 = (res, s')" by simp
      from Cons.IH [OF this] obtain a2 where "new_files s' = new_files s2 @ a2" by blast
      with g2 have "new_files s' = new_files s @ (a1 @ a2)" by simp
      then show ?thesis by blast
    qed
  qed
qed

lemma get_or_make_step_run_frame:
  "get_or_make_step_run ev lab rn sv name s = (res, s') \<Longrightarrow> new_files s' = new_files s"
  by (auto simp: get_or_make_step_run_def Let_def
      split: list.splits option.splits sum.splits prod.splits)

lemma accession_step_grows:
  "accession_step ev sp s = (res, s') \<Longrightarrow> \<exists>added. new_files s' = new_files s @ added"
  by (auto simp: accession_step_def split: sum.splits prod.splits
      dest!: get_or_make_step_run_frame accession_items_grows)

lemma accession_steps_grows:
  "accession_steps ev sps s = (res, s') \<Longrightarrow> \<exists>added. new_files s' = new_files s @ added"
proof (induction sps arbitrary: s res s')
  case Nil
  then show ?case by simp
next
  case (Cons sp sps)
  obtain r1 s1 where a: "accession_step ev sp s = (r1, s1)"
    by (cases "accession_step ev sp s")
  from accession_step_grows [OF a] obtain a1 where g1: "new_files s1 = new_files s @ a1" by blast
  show ?case
  proof (cases r1)
    case (Inl e)
    with Cons.prems a g1 show ?thesis by auto
  next
    case (Inr ok)
    with Cons.prems a have "accession_steps ev sps s1 = (res, s')" by simp
    from Cons.IH [OF this] obtain a2 where "new_files s' = new_files s1 @ a2" by blast
    with g1 have "new_files s' = new_files s @ (a1 @ a2)" by simp
    then show ?thesis by blast
  qed
qed

lemma cache_in_ids:
  assumes "g \<in> set found" and "r \<in> set cache" and "matches (files a ! g) otype r"
  shows "accession r \<in> set (derived_from_accession_ids a (py_set found)
                               (not_none (enc @ map Some cache)) otype)"
  unfolding set_accession_ids set_not_none using assms by (auto simp: set_py_set)

lemma cache_not_missing_all:
  assumes "task (files (graph ev) ! f) = Some t"
    and "search_up (depth ev) (graph ev) t name key inp = (found, None)"
    and "files_at_portal ev (py_set found) s = (Inr enc, s1)"
    and "g \<in> set found" and "r \<in> set (new_files s)"
    and "matches (files (graph ev) ! g) otype r"
  shows "get_derived_from ev f name key otype inp s \<noteq> (Inl MissingAllDerivedFrom, s1)"
proof -
  let ?ids = "derived_from_accession_ids (graph ev) (py_set found)
                (not_none (enc @ map Some (new_files s1))) otype"
  from files_at_portal_frame [OF assms(3)] have nf: "new_files s1 = new_files s" by simp
  have "accession r \<in> set ?ids"
    using cache_in_ids [OF assms(4) _ assms(6)] assms(5) nf by simp
  then have ne: "?ids \<noteq> []" by auto
  from get_derived_from_cases [OF assms(1,2,3) refl, of otype] ne
  show ?thesis using missing_errors_differ by (auto split: if_splits)
qed

lemma cache_in_result:
  assumes "task (files (graph ev) ! f) = Some t"
    and "search_up (depth ev) (graph ev) t name key inp = (found, None)"
    and "g \<in> set found" and "r \<in> set (new_files s)"
    and "matches (files (graph ev) ! g) otype r"
    and res: "get_derived_from ev f name key otype inp s = (Inr refs, s')"
  shows "file_ref (accession r) \<in> set refs"
proof -
  obtain l s1 where l: "files_at_portal ev (py_set found) s = (l, s1)"
    by (cases "files_at_portal ev (py_set found) s")
  from files_at_portal_frame [OF l] have nf: "new_files s1 = new_files s" by simp
  show ?thesis
  proof (cases l)
    case (Inl e)
    with res l assms(1,2) show ?thesis by (simp add: get_derived_from_def)
  next
    case (Inr enc)
    let ?ids = "derived_from_accession_ids (graph ev) (py_set found)
                  (not_none (enc @ map Some (new_files s1))) otype"
    have in_ids: "accession r \<in> set ?ids"
      using cache_in_ids [OF assms(3) _ assms(5)] assms(4) nf by simp
    from get_derived_from_cases [OF assms(1,2) l [unfolded Inr] refl, of otype] res
    have "refs = map file_ref ?ids" by (auto split: if_splits)
    with in_ids show ?thesis by auto
  qed
qed

lemma demo_submit:
  "fst (accession_file demo_env cand x_bam (start [])) = Inr posted_record \<and>
   new_files (snd (accession_file demo_env cand x_bam (start []))) = [posted_record] \<and>
   mutations (snd (accession_file demo_env cand x_bam (start []))) \<noteq> mutations (start [])"
  by code_simp

lemma demo_cache_lookup:
  "get_derived_from demo_env 1 ''align'' ''bam'' None False cache_state =
     (Inr [''/files/ENCFFA/''], log (Searched ''md5:gs://b/x.bam'') cache_state)"
  by code_simp

lemma demo_two_steps:
  "fst (accession_steps demo_env [align_step, dedup_step] (start [fastq_record])) = Inr () \<and>
   new_files (snd (accession_steps demo_env [align_step, dedup_step] (start [fastq_record])))
     = [x_record, y_record]"
  by code_simp

text \<open>
  C7. A record that \<open>accession_file\<close> returns after a create or update call is the last
  element of \<open>new_files\<close> when it returns (and without such a call \<open>new_files\<close> is
  unchanged). \<open>get_derived_from\<close> matches the ancestors against \<open>new_files\<close> as well as
  against the portal: a record of \<open>new_files\<close> that matches an ancestor keeps the call from
  raising MissingAllDerivedFrom, and its reference is in the list the call returns.
  \<open>accession_steps\<close> runs the steps one after the other, each on the state the step before
  left, and \<open>new_files\<close> only grows at its end.
\<close>

theorem cache_grows_and_is_consulted:
  "(accession_file ev c g s = (Inr r, s') \<longrightarrow>
      (mutations s' \<noteq> mutations s \<longrightarrow> new_files s' = new_files s @ [r]) \<and>
      (mutations s' = mutations s \<longrightarrow> new_files s' = new_files s)) \<and>
   (task (files (graph ev) ! f) = Some t \<and>
    search_up (depth ev) (graph ev) t name key inp = (found, None) \<and>
    a \<in> set found \<and> cached \<in> set (new_files s0) \<and>
    matches (files (graph ev) ! a) otype cached \<longrightarrow>
      (files_at_portal ev (py_set found) s0 = (Inr enc, s1) \<longrightarrow>
         get_derived_from ev f name key otype inp s0 \<noteq> (Inl MissingAllDerivedFrom, s1)) \<and>
      (get_derived_from ev f name key otype inp s0 = (Inr refs, s2) \<longrightarrow>
         file_ref (accession cached) \<in> set refs)) \<and>
   accession_steps ev (sp # sps) u =
     (case accession_step ev sp u of
        (Inl e, u1) \<Rightarrow> (Inl e, u1)
      | (Inr accessioned, u1) \<Rightarrow> accession_steps ev sps u1) \<and>
   (accession_steps ev steps v = (res, v') \<longrightarrow> (\<exists>added. new_files v' = new_files v @ added))"
proof (intro conjI impI)
  assume "accession_file ev c g s = (Inr r, s')"
  note k = accession_file_cache [OF this]
  show "new_files s' = new_files s @ [r]" if "mutations s' \<noteq> mutations s"
    using k that by blast
  show "new_files s' = new_files s" if "mutations s' = mutations s"
    using k that by blast
next
  assume h: "task (files (graph ev) ! f) = Some t \<and>
    search_up (depth ev) (graph ev) t name key inp = (found, None) \<and>
    a \<in> set found \<and> cached \<in> set (new_files s0) \<and>
    matches (files (graph ev) ! a) otype cached"
  show "get_derived_from ev f name key otype inp s0 \<noteq> (Inl MissingAllDerivedFrom, s1)"
    if "files_at_portal ev (py_set found) s0 = (Inr enc, s1)"
    using cache_not_missing_all [where ev = ev and f = f and s = s0] h that by blast
  show "file_ref (accession cached) \<in> set refs"
    if "get_derived_from ev f name key otype inp s0 = (Inr refs, s2)"
    using cache_in_result [where ev = ev and f = f and s = s0] h that by blast
next
  show "accession_steps ev (sp # sps) u =
     (case accession_step ev sp u of
        (Inl e, u1) \<Rightarrow> (Inl e, u1)
      | (Inr accessioned, u1) \<Rightarrow> accession_steps ev sps u1)"
    by simp
next
  assume "accession_steps ev steps v = (res, v')"
  then show "\<exists>added. new_files v' = new_files v @ added"
    by (rule accession_steps_grows)
qed

theorem cache_grows_and_is_consulted_witness:
  "fst (accession_file demo_env cand x_bam (start [])) = Inr posted_record \<and>
   new_files (snd (accession_file demo_env cand x_bam (start []))) =
     new_files (start []) @ [posted_record] \<and>
   posted_record \<in> set (new_files cache_state) \<and>
   portal cache_state = [] \<and>
   get_derived_from demo_env 1 ''align'' ''bam'' None False cache_state =
     (Inr [''/files/ENCFFA/''], log (Searched ''md5:gs://b/x.bam'') cache_state) \<and>
   file_ref (accession posted_record) \<in> set [''/files/ENCFFA/''] \<and>
   fst (accession_steps demo_env [align_step, dedup_step] (start [fastq_record])) = Inr () \<and>
   new_files (snd (accession_steps demo_env [align_step, dedup_step] (start [fastq_record])))
     = [x_record, y_record] \<and>
   (\<exists>added. new_files (snd (accession_steps demo_env [align_step, dedup_step]
                                (start [fastq_record])))
             = new_files (start [fastq_record]) @ added)"
proof -
  note T = cache_grows_and_is_consulted [where ev = demo_env and c = cand and g = x_bam
      and s = "start []" and r = posted_record
      and s' = "snd (accession_file demo_env cand x_bam (start []))"
      and f = 1 and t = 1 and name = "''align''" and key = "''bam''" and inp = False
      and found = "[0]" and a = 0 and cached = posted_record and ?s0.0 = cache_state
      and otype = None and refs = "[''/files/ENCFFA/'']"
      and ?s2.0 = "log (Searched ''md5:gs://b/x.bam'') cache_state"
      and steps = "[align_step, dedup_step]" and v = "start [fastq_record]"
      and res = "fst (accession_steps demo_env [align_step, dedup_step] (start [fastq_record]))"
      and v' = "snd (accession_steps demo_env [align_step, dedup_step] (start [fastq_record]))"]
  have a1: "accession_file demo_env cand x_bam (start []) =
      (Inr posted_record, snd (accession_file demo_env cand x_bam (start [])))"
    using demo_submit by (metis prod.collapse)
  have a2: "mutations (snd (accession_file demo_env cand x_bam (start []))) \<noteq> mutations (start [])"
    using demo_submit by blast
  from T [THEN conjunct1, THEN mp, OF a1, THEN conjunct1, THEN mp, OF a2]
  have A: "new_files (snd (accession_file demo_env cand x_bam (start []))) =
     new_files (start []) @ [posted_record]" .
  have b1: "task (files (graph demo_env) ! 1) = Some 1 \<and>
      search_up (depth demo_env) (graph demo_env) 1 ''align'' ''bam'' False = ([0], None) \<and>
      (0::nat) \<in> set [0] \<and> posted_record \<in> set (new_files cache_state) \<and>
      matches (files (graph demo_env) ! 0) None posted_record"
    using demo_ancestors
    by (simp add: demo_env_def demo_graph_def cache_state_def matches_def posted_record_def)
  from T [THEN conjunct2, THEN conjunct1, THEN mp, OF b1, THEN conjunct2, THEN mp,
      OF demo_cache_lookup]
  have B: "file_ref (accession posted_record) \<in> set [''/files/ENCFFA/'']" .
  have c1: "accession_steps demo_env [align_step, dedup_step] (start [fastq_record]) =
      (fst (accession_steps demo_env [align_step, dedup_step] (start [fastq_record])),
       snd (accession_steps demo_env [align_step, dedup_step] (start [fastq_record])))"
    by simp
  from T [THEN conjunct2, THEN conjunct2, THEN conjunct2, THEN mp, OF c1]
  have C: "\<exists>added. new_files (snd (accession_steps demo_env [align_step, dedup_step]
                                (start [fastq_record])))
             = new_files (start [fastq_record]) @ added" .
  have "posted_record \<in> set (new_files cache_state)" "portal cache_state = []"
    by (simp_all add: cache_state_def)
  with A B C demo_submit demo_cache_lookup demo_two_steps show ?thesis by blast
qed

lemmas step_defs =
  try_file_def make_file_obj_def get_derived_from_def dataset_def raw_fastqs_def
  file_at_portal_def accession_file_def submit_new_def resubmit_def patch_file_def
  derived_from_accession_ids_def matches_def py_set_def gen_then_def with_key_def offered_def
  file_ref_def MissingAllDerivedFrom_def MissingSomeDerivedFrom_def

lemma demo_try_missing_all:
  "try_file demo_env empty_record nodup_params 1 (start [fastq_record]) =
     (Inl MissingAllDerivedFrom, log (Searched ''md5:gs://b/x.bam'') (start [fastq_record]))"
  by (simp add: step_defs nodup_params_def fastq_record_def demo_defs demo_graph_def
      eval_nat_numeral)

lemma demo_try_missing_some:
  "try_file demo_env empty_record nodup_params 1 surplus_state =
     (Inl MissingSomeDerivedFrom,
      log (Got (Some ''ENCFF1'')) (log (Searched ''md5:gs://b/x.bam'') surplus_state))"
  by (simp add: step_defs nodup_params_def surplus_state_def demo_defs demo_graph_def
      eval_nat_numeral)

lemma demo_try_conflict:
  "fst (try_file conflict_env empty_record dup_params 0 (start [fastq_record])) =
     Inl (Raise HTTPError ''409 Client Error: Conflict'')"
  by code_simp

lemma missing_all_message:
  "str_in ''Missing all of the derived_from'' (str_of MissingAllDerivedFrom)"
  by (simp add: MissingAllDerivedFrom_def)

lemma missing_some_message:
  "\<not> str_in ''Conflict'' (str_of MissingSomeDerivedFrom)"
  "\<not> str_in ''Missing all of the derived_from'' (str_of MissingSomeDerivedFrom)"
  by (simp_all add: MissingSomeDerivedFrom_def)

lemma try_file_derived_from_error:
  "get_derived_from_all ev f (derived_from_files fp) s = (Inl e, s1)
   \<Longrightarrow> try_file ev sr fp f s = (Inl e, s1)"
  by (simp add: try_file_def make_file_obj_def)

lemma get_derived_from_all_first_error:
  "get_derived_from ev f (derived_from_task anc) (derived_from_filekey anc)
     (derived_from_output_type anc) (derived_from_inputs anc) s = (Inl e, s1)
   \<Longrightarrow> get_derived_from_all ev f (anc # ancs) s = (Inl e, s1)"
  by simp

lemma try_file_download_error:
  assumes "make_file_obj ev f fp sr w = (Inr obj, w1)"
    and "file_at_portal ev (filename (files (graph ev) ! f)) w1 = (Inr None, w2)"
    and "be_download (backend ev) (filename (files (graph ev) ! f)) = Inl e"
  shows "try_file ev sr fp f w = (Inl e, w2)"
  using assms by (simp add: try_file_def accession_file_def submit_new_def)

text \<open>
  C6, as the code has it. The \<open>except\<close> clause of \<open>accession_step\<close> looks at the text
  of the exception, not at its kind. When the body of the \<open>try\<close> fails for a file, the loop
  goes on with the next file exactly when the text contains \<open>Conflict\<close> and the file's entry
  sets \<open>possible_duplicate\<close>, or the text contains \<open>Missing all of the derived_from\<close>; in
  every other case the exception ends the loop, the step and the run. The exception for all
  ancestors missing has the second text; the exception for some ancestors missing has
  neither. Whatever fails inside the body is subject to the same test: an exception of the
  derived-from resolution is an exception of the body, and so is a failure of the storage
  backend to download a file that has no record yet.
\<close>

theorem step_recovery_by_message:
  "(try_file ev sr (fst item) (snd item) s = (Inl e, s1) \<and>
    ((str_in ''Conflict'' (str_of e) \<and> possible_duplicate (fst item)) \<or>
     str_in ''Missing all of the derived_from'' (str_of e))
    \<longrightarrow> accession_items ev sr (item # items) acc s = accession_items ev sr items acc s1) \<and>
   (try_file ev sr (fst item) (snd item) s = (Inl e, s1) \<and>
    \<not> (str_in ''Conflict'' (str_of e) \<and> possible_duplicate (fst item)) \<and>
    \<not> str_in ''Missing all of the derived_from'' (str_of e)
    \<longrightarrow> accession_items ev sr (item # items) acc s = (Inl e, s1)) \<and>
   str_in ''Missing all of the derived_from'' (str_of MissingAllDerivedFrom) \<and>
   \<not> str_in ''Conflict'' (str_of MissingSomeDerivedFrom) \<and>
   \<not> str_in ''Missing all of the derived_from'' (str_of MissingSomeDerivedFrom) \<and>
   (get_derived_from ev f (derived_from_task anc) (derived_from_filekey anc)
      (derived_from_output_type anc) (derived_from_inputs anc) t = (Inl e1, t1) \<and>
    derived_from_files fp = anc # ancs
    \<longrightarrow> try_file ev sr fp f t = (Inl e1, t1)) \<and>
   (lab_pi ev = Inr lab \<and>
    get_or_make_step_run ev lab (dcc_step_run sp) (dcc_step_version sp) (wdl_task_name sp) u
      = (Inr sr2, u1) \<and>
    accession_items ev sr2 (step_items (graph ev) sp) [] u1 = (Inl e2, u2)
    \<longrightarrow> accession_step ev sp u = (Inl e2, u2)) \<and>
   (accession_step ev sp v = (Inl e3, v1) \<longrightarrow> accession_steps ev (sp # sps) v = (Inl e3, v1)) \<and>
   (make_file_obj ev f4 fp4 sr4 w = (Inr obj, w1) \<and>
    file_at_portal ev (filename (files (graph ev) ! f4)) w1 = (Inr None, w2) \<and>
    be_download (backend ev) (filename (files (graph ev) ! f4)) = Inl e4
    \<longrightarrow> try_file ev sr4 fp4 f4 w = (Inl e4, w2))"
proof (intro conjI impI)
  assume "try_file ev sr (fst item) (snd item) s = (Inl e, s1) \<and>
    ((str_in ''Conflict'' (str_of e) \<and> possible_duplicate (fst item)) \<or>
     str_in ''Missing all of the derived_from'' (str_of e))"
  then show "accession_items ev sr (item # items) acc s = accession_items ev sr items acc s1"
    by auto
next
  assume "try_file ev sr (fst item) (snd item) s = (Inl e, s1) \<and>
    \<not> (str_in ''Conflict'' (str_of e) \<and> possible_duplicate (fst item)) \<and>
    \<not> str_in ''Missing all of the derived_from'' (str_of e)"
  then show "accession_items ev sr (item # items) acc s = (Inl e, s1)"
    by auto
next
  show "str_in ''Missing all of the derived_from'' (str_of MissingAllDerivedFrom)"
    by (rule missing_all_message)
  show "\<not> str_in ''Conflict'' (str_of MissingSomeDerivedFrom)"
    by (rule missing_some_message)
  show "\<not> str_in ''Missing all of the derived_from'' (str_of MissingSomeDerivedFrom)"
    by (rule missing_some_message)
next
  assume "get_derived_from ev f (derived_from_task anc) (derived_from_filekey anc)
      (derived_from_output_type anc) (derived_from_inputs anc) t = (Inl e1, t1) \<and>
    derived_from_files fp = anc # ancs"
  then show "try_file ev sr fp f t = (Inl e1, t1)"
    using try_file_derived_from_error get_derived_from_all_first_error by metis
next
  assume "lab_pi ev = Inr lab \<and>
    get_or_make_step_run ev lab (dcc_step_run sp) (dcc_step_version sp) (wdl_task_name sp) u
      = (Inr sr2, u1) \<and>
    accession_items ev sr2 (step_items (graph ev) sp) [] u1 = (Inl e2, u2)"
  then show "accession_step ev sp u = (Inl e2, u2)"
    by (simp add: accession_step_def)
next
  assume "accession_step ev sp v = (Inl e3, v1)"
  then show "accession_steps ev (sp # sps) v = (Inl e3, v1)" by simp
next
  assume "make_file_obj ev f4 fp4 sr4 w = (Inr obj, w1) \<and>
    file_at_portal ev (filename (files (graph ev) ! f4)) w1 = (Inr None, w2) \<and>
    be_download (backend ev) (filename (files (graph ev) ! f4)) = Inl e4"
  then show "try_file ev sr4 fp4 f4 w = (Inl e4, w2)"
    using try_file_download_error by blast
qed

lemma outage_obj:
  "fst (make_file_obj outage_env 0 dup_params empty_record (start [fastq_record])) =
     Inr [(''status'', JStr ''uploading''), (''output_type'', JStr ''alignments''),
          (''derived_from'', JList []), (''md5sum'', JStr ''md5:gs://b/x.bam'')]"
  by code_simp

lemma outage_lookup:
  "fst (file_at_portal outage_env (filename (files (graph outage_env) ! 0))
     (snd (make_file_obj outage_env 0 dup_params empty_record (start [fastq_record]))))
   = Inr None"
  by code_simp

lemma outage_download:
  "be_download (backend outage_env) (filename (files (graph outage_env) ! 0)) =
     Inl (Raise BackendError ''Conflict: cannot download gs://b/x.bam'')"
  by code_simp

lemma outage_message:
  "str_in ''Conflict'' (str_of (Raise BackendError ''Conflict: cannot download gs://b/x.bam''))"
  "\<not> str_in ''Missing all of the derived_from''
       (str_of (Raise BackendError ''Conflict: cannot download gs://b/x.bam''))"
  "Raise BackendError ''Conflict: cannot download gs://b/x.bam'' \<noteq> MissingAllDerivedFrom"
  by (simp_all add: MissingAllDerivedFrom_def)

lemma demo_surplus_raise:
  "get_derived_from demo_env 1 (derived_from_task (hd (derived_from_files nodup_params)))
     (derived_from_filekey (hd (derived_from_files nodup_params)))
     (derived_from_output_type (hd (derived_from_files nodup_params)))
     (derived_from_inputs (hd (derived_from_files nodup_params))) surplus_state =
     (Inl MissingSomeDerivedFrom,
      log (Got (Some ''ENCFF1'')) (log (Searched ''md5:gs://b/x.bam'') surplus_state))"
  by code_simp

lemma demo_step_run:
  "fst (get_or_make_step_run demo_env ''encode-processing-pipeline'' (dcc_step_run dedup_step)
          (dcc_step_version dedup_step) (wdl_task_name dedup_step) surplus_state)
     = Inr step_run_record"
  by code_simp

lemma demo_step_items_abort:
  "fst (accession_items demo_env step_run_record (step_items (graph demo_env) dedup_step) []
          (snd (get_or_make_step_run demo_env ''encode-processing-pipeline''
                  (dcc_step_run dedup_step) (dcc_step_version dedup_step)
                  (wdl_task_name dedup_step) surplus_state)))
     = Inl MissingSomeDerivedFrom"
  by code_simp

theorem step_recovery_by_message_witness:
  "accession_items demo_env empty_record [(nodup_params, 1)] [] (start [fastq_record]) =
     (Inr [], log (Searched ''md5:gs://b/x.bam'') (start [fastq_record])) \<and>
   possible_duplicate dup_params \<and>
   fst (try_file conflict_env empty_record dup_params 0 (start [fastq_record])) =
     Inl (Raise HTTPError ''409 Client Error: Conflict'') \<and>
   fst (accession_items conflict_env empty_record [(dup_params, 0)] [] (start [fastq_record]))
     = Inr [] \<and>
   accession_items demo_env empty_record [(nodup_params, 1)] [] surplus_state =
     (Inl MissingSomeDerivedFrom,
      log (Got (Some ''ENCFF1'')) (log (Searched ''md5:gs://b/x.bam'') surplus_state)) \<and>
   try_file demo_env step_run_record nodup_params 1 surplus_state =
     (Inl MissingSomeDerivedFrom,
      log (Got (Some ''ENCFF1'')) (log (Searched ''md5:gs://b/x.bam'') surplus_state)) \<and>
   fst (accession_step demo_env dedup_step surplus_state) = Inl MissingSomeDerivedFrom \<and>
   fst (accession_steps demo_env [dedup_step, align_step] surplus_state) =
     Inl MissingSomeDerivedFrom \<and>
   be_download (backend outage_env) (filename (files (graph outage_env) ! 0)) =
     Inl (Raise BackendError ''Conflict: cannot download gs://b/x.bam'') \<and>
   fst (try_file outage_env empty_record dup_params 0 (start [fastq_record])) =
     Inl (Raise BackendError ''Conflict: cannot download gs://b/x.bam'') \<and>
   fst (accession_items outage_env empty_record [(dup_params, 0)] [] (start [fastq_record]))
     = Inr []"
proof -
  \<comment> \<open>all ancestors missing: the file is skipped\<close>
  have a1: "try_file demo_env empty_record (fst (nodup_params, 1::nat)) (snd (nodup_params, 1::nat))
        (start [fastq_record]) =
      (Inl MissingAllDerivedFrom, log (Searched ''md5:gs://b/x.bam'') (start [fastq_record])) \<and>
      ((str_in ''Conflict'' (str_of MissingAllDerivedFrom) \<and>
        possible_duplicate (fst (nodup_params, 1::nat))) \<or>
       str_in ''Missing all of the derived_from'' (str_of MissingAllDerivedFrom))"
    using demo_try_missing_all missing_all_message by simp
  from step_recovery_by_message [where ev = demo_env and sr = empty_record
      and item = "(nodup_params, 1)" and s = "start [fastq_record]"
      and e = MissingAllDerivedFrom
      and ?s1.0 = "log (Searched ''md5:gs://b/x.bam'') (start [fastq_record])"
      and items = "[]" and acc = "[]", THEN conjunct1, THEN mp, OF a1]
  have A: "accession_items demo_env empty_record [(nodup_params, 1)] [] (start [fastq_record]) =
     (Inr [], log (Searched ''md5:gs://b/x.bam'') (start [fastq_record]))"
    by simp
  \<comment> \<open>a conflict on a possible duplicate: the file is skipped\<close>
  have pd: "possible_duplicate dup_params" by (simp add: dup_params_def)
  have b1: "try_file conflict_env empty_record (fst (dup_params, 0::nat)) (snd (dup_params, 0::nat))
        (start [fastq_record]) =
      (Inl (Raise HTTPError ''409 Client Error: Conflict''),
       snd (try_file conflict_env empty_record dup_params 0 (start [fastq_record]))) \<and>
      ((str_in ''Conflict'' (str_of (Raise HTTPError ''409 Client Error: Conflict'')) \<and>
        possible_duplicate (fst (dup_params, 0::nat))) \<or>
       str_in ''Missing all of the derived_from''
         (str_of (Raise HTTPError ''409 Client Error: Conflict'')))"
    using demo_try_conflict pd by (simp add: prod_eq_iff)
  from step_recovery_by_message [where ev = conflict_env and sr = empty_record
      and item = "(dup_params, 0)" and s = "start [fastq_record]"
      and e = "Raise HTTPError ''409 Client Error: Conflict''"
      and ?s1.0 = "snd (try_file conflict_env empty_record dup_params 0 (start [fastq_record]))"
      and items = "[]" and acc = "[]", THEN conjunct1, THEN mp, OF b1]
  have B: "fst (accession_items conflict_env empty_record [(dup_params, 0)] []
                  (start [fastq_record])) = Inr []"
    by simp
  \<comment> \<open>some ancestors missing: the exception leaves the loop\<close>
  have c1: "try_file demo_env empty_record (fst (nodup_params, 1::nat)) (snd (nodup_params, 1::nat))
        surplus_state =
      (Inl MissingSomeDerivedFrom,
       log (Got (Some ''ENCFF1'')) (log (Searched ''md5:gs://b/x.bam'') surplus_state)) \<and>
      \<not> (str_in ''Conflict'' (str_of MissingSomeDerivedFrom) \<and>
         possible_duplicate (fst (nodup_params, 1::nat))) \<and>
      \<not> str_in ''Missing all of the derived_from'' (str_of MissingSomeDerivedFrom)"
    using demo_try_missing_some missing_some_message by simp
  from step_recovery_by_message [where ev = demo_env and sr = empty_record
      and item = "(nodup_params, 1)" and s = surplus_state and e = MissingSomeDerivedFrom
      and ?s1.0 = "log (Got (Some ''ENCFF1'')) (log (Searched ''md5:gs://b/x.bam'') surplus_state)"
      and items = "[]" and acc = "[]", THEN conjunct2, THEN conjunct1, THEN mp, OF c1]
  have C: "accession_items demo_env empty_record [(nodup_params, 1)] [] surplus_state =
     (Inl MissingSomeDerivedFrom,
      log (Got (Some ''ENCFF1'')) (log (Searched ''md5:gs://b/x.bam'') surplus_state))" .
  \<comment> \<open>the exception of the derived-from resolution is the exception of the body\<close>
  have d1: "get_derived_from demo_env 1
        (derived_from_task (hd (derived_from_files nodup_params)))
        (derived_from_filekey (hd (derived_from_files nodup_params)))
        (derived_from_output_type (hd (derived_from_files nodup_params)))
        (derived_from_inputs (hd (derived_from_files nodup_params))) surplus_state =
      (Inl MissingSomeDerivedFrom,
       log (Got (Some ''ENCFF1'')) (log (Searched ''md5:gs://b/x.bam'') surplus_state)) \<and>
      derived_from_files nodup_params = hd (derived_from_files nodup_params) # []"
    using demo_surplus_raise by (simp add: nodup_params_def)
  from step_recovery_by_message [where ev = demo_env and sr = step_run_record
      and f = 1 and anc = "hd (derived_from_files nodup_params)" and t = surplus_state
      and ?e1.0 = MissingSomeDerivedFrom
      and ?t1.0 = "log (Got (Some ''ENCFF1'')) (log (Searched ''md5:gs://b/x.bam'') surplus_state)"
      and fp = nodup_params and ancs = "[]",
      THEN conjunct2, THEN conjunct2, THEN conjunct2, THEN conjunct2, THEN conjunct2,
      THEN conjunct1, THEN mp, OF d1]
  have D: "try_file demo_env step_run_record nodup_params 1 surplus_state =
     (Inl MissingSomeDerivedFrom,
      log (Got (Some ''ENCFF1'')) (log (Searched ''md5:gs://b/x.bam'') surplus_state))" .
  \<comment> \<open>the exception ends the step and the run\<close>
  let ?G = "get_or_make_step_run demo_env ''encode-processing-pipeline''
              (dcc_step_run dedup_step) (dcc_step_version dedup_step)
              (wdl_task_name dedup_step) surplus_state"
  let ?I = "accession_items demo_env step_run_record (step_items (graph demo_env) dedup_step) []
              (snd ?G)"
  have e1: "lab_pi demo_env = Inr ''encode-processing-pipeline'' \<and>
      ?G = (Inr step_run_record, snd ?G) \<and> ?I = (Inl MissingSomeDerivedFrom, snd ?I)"
    using demo_step_run demo_step_items_abort by (simp add: prod_eq_iff demo_env_def)
  from step_recovery_by_message [where ev = demo_env
      and lab = "''encode-processing-pipeline''" and sp = dedup_step and u = surplus_state
      and ?sr2.0 = step_run_record and ?u1.0 = "snd ?G" and ?e2.0 = MissingSomeDerivedFrom
      and ?u2.0 = "snd ?I",
      THEN conjunct2, THEN conjunct2, THEN conjunct2, THEN conjunct2, THEN conjunct2,
      THEN conjunct2, THEN conjunct1, THEN mp, OF e1]
  have E: "accession_step demo_env dedup_step surplus_state = (Inl MissingSomeDerivedFrom, snd ?I)" .
  from step_recovery_by_message [where ev = demo_env and sp = dedup_step
      and v = surplus_state and ?e3.0 = MissingSomeDerivedFrom and ?v1.0 = "snd ?I"
      and sps = "[align_step]",
      THEN conjunct2, THEN conjunct2, THEN conjunct2, THEN conjunct2, THEN conjunct2,
      THEN conjunct2, THEN conjunct2, THEN conjunct1, THEN mp, OF E]
  have F: "accession_steps demo_env [dedup_step, align_step] surplus_state =
      (Inl MissingSomeDerivedFrom, snd ?I)" .
  \<comment> \<open>a failed download is a failure of the body, and its text decides\<close>
  let ?e = "Raise BackendError ''Conflict: cannot download gs://b/x.bam''"
  let ?M = "make_file_obj outage_env 0 dup_params empty_record (start [fastq_record])"
  let ?L = "file_at_portal outage_env (filename (files (graph outage_env) ! 0)) (snd ?M)"
  let ?obj = "[(''status'', JStr ''uploading''), (''output_type'', JStr ''alignments''),
          (''derived_from'', JList []), (''md5sum'', JStr ''md5:gs://b/x.bam'')]"
  have g1: "?M = (Inr ?obj, snd ?M) \<and> ?L = (Inr None, snd ?L) \<and>
      be_download (backend outage_env) (filename (files (graph outage_env) ! 0)) = Inl ?e"
    using outage_obj outage_lookup outage_download by (simp add: prod_eq_iff)
  from step_recovery_by_message [where ev = outage_env and ?f4.0 = 0 and ?fp4.0 = dup_params
      and ?sr4.0 = empty_record and w = "start [fastq_record]" and obj = ?obj
      and ?w1.0 = "snd ?M" and ?w2.0 = "snd ?L" and ?e4.0 = ?e,
      THEN conjunct2, THEN conjunct2, THEN conjunct2, THEN conjunct2, THEN conjunct2,
      THEN conjunct2, THEN conjunct2, THEN conjunct2, THEN mp, OF g1]
  have G: "try_file outage_env empty_record dup_params 0 (start [fastq_record]) = (Inl ?e, snd ?L)" .
  have h1: "try_file outage_env empty_record (fst (dup_params, 0::nat)) (snd (dup_params, 0::nat))
        (start [fastq_record]) = (Inl ?e, snd ?L) \<and>
      ((str_in ''Conflict'' (str_of ?e) \<and> possible_duplicate (fst (dup_params, 0::nat))) \<or>
       str_in ''Missing all of the derived_from'' (str_of ?e))"
    using G pd outage_message(1) by simp
  from step_recovery_by_message [where ev = outage_env and sr = empty_record
      and item = "(dup_params, 0)" and s = "start [fastq_record]" and e = ?e
      and ?s1.0 = "snd ?L" and items = "[]" and acc = "[]", THEN conjunct1, THEN mp, OF h1]
  have H: "fst (accession_items outage_env empty_record [(dup_params, 0)] []
                  (start [fastq_record])) = Inr []"
    by simp
  from G have G': "fst (try_file outage_env empty_record dup_params 0 (start [fastq_record]))
      = Inl ?e" by simp
  from A B C D E F pd demo_try_conflict outage_download G' H show ?thesis by simp
qed

text \<open>
  C6 as stated fails: the two cases are not the only ones recovered. Here the storage
  backend fails to download \<open>x.bam\<close>; the failure is neither a conflict reported by the
  portal nor the exception for all ancestors missing, and no create or update call is
  made. Its text contains \<open>Conflict\<close> and the file's entry sets \<open>possible_duplicate\<close>, so
  the file is skipped, and the loop, the step and the run end normally.
\<close>

theorem step_recovery_download_counterexample:
  "possible_duplicate dup_params \<and>
   be_download (backend outage_env) (filename (files (graph outage_env) ! 0)) =
     Inl (Raise BackendError ''Conflict: cannot download gs://b/x.bam'') \<and>
   fst (try_file outage_env empty_record dup_params 0 (start [fastq_record])) =
     Inl (Raise BackendError ''Conflict: cannot download gs://b/x.bam'') \<and>
   Raise BackendError ''Conflict: cannot download gs://b/x.bam'' \<noteq> MissingAllDerivedFrom \<and>
   mutations (snd (try_file outage_env empty_record dup_params 0 (start [fastq_record]))) = [] \<and>
   fst (accession_items outage_env empty_record [(dup_params, 0)] [] (start [fastq_record]))
     = Inr [] \<and>
   fst (accession_step outage_env dup_step (start [fastq_record])) = Inr [] \<and>
   fst (accession_steps outage_env [dup_step] (start [fastq_record])) = Inr ()"
proof -
  have a: "possible_duplicate dup_params" by (simp add: dup_params_def)
  have b: "fst (try_file outage_env empty_record dup_params 0 (start [fastq_record])) =
     Inl (Raise BackendError ''Conflict: cannot download gs://b/x.bam'')"
    by code_simp
  have c: "mutations (snd (try_file outage_env empty_record dup_params 0
                             (start [fastq_record]))) = []"
    by code_simp
  have d: "fst (accession_items outage_env empty_record [(dup_params, 0)] []
                  (start [fastq_record])) = Inr []"
    by code_simp
  have e: "fst (accession_step outage_env dup_step (start [fastq_record])) = Inr []"
    by code_simp
  have f: "fst (accession_steps outage_env [dup_step] (start [fastq_record])) = Inr ()"
    by code_simp
  from a b c d e f outage_download outage_message(3) show ?thesis by blast
qed

end
